theory Spec2Isabelle
  imports Complex_Main
begin

section \<open>Strings and errors\<close>

text \<open>
  A Python \<open>str\<close> is a sequence of Unicode code points.  It is modelled as a list of
  natural numbers (the code points), so that \<open>len\<close>, slicing and the regular
  expressions count what Python counts.  ASCII literals are written with \<open>str\<close>.
\<close>

type_synonym pystr = "nat list"

definition str :: "string \<Rightarrow> pystr" where
  "str s = map of_char s"

abbreviation (input) ch :: "char \<Rightarrow> nat" where
  "ch c \<equiv> of_char c"

text \<open>The newline character \<open>\n\<close>.\<close>

definition NL :: nat where
  "NL = 10"

text \<open>
  The characters matched by \<open>\s\<close> in a \<open>str\<close> pattern and removed by \<open>str.strip()\<close>:
  the code points for which \<open>str.isspace()\<close> holds.
\<close>

definition is_space :: "nat \<Rightarrow> bool" where
  "is_space c \<longleftrightarrow>
     (9 \<le> c \<and> c \<le> 13) \<or> (28 \<le> c \<and> c \<le> 32) \<or> c = 133 \<or> c = 160 \<or> c = 5760 \<or>
     (8192 \<le> c \<and> c \<le> 8202) \<or> c = 8232 \<or> c = 8233 \<or> c = 8239 \<or> c = 8287 \<or> c = 12288"

text \<open>\<open>s.strip()\<close>: whitespace is dropped at both ends.\<close>

definition strip :: "pystr \<Rightarrow> pystr" where
  "strip s = rev (dropWhile is_space (rev (dropWhile is_space s)))"

text \<open>The exceptions of the source that the model distinguishes.\<close>

datatype error =
    ValueError
  | TypeError
  | KeyError
  | IndexError
  | AttributeError
  | OSError
  | JSONDecodeError
  | RequestException
  | HTTPError
  | RuntimeError

section \<open>The text normalizer \<open>clean_markdown\<close>\<close>

text \<open>
  \<open>re.sub(r"#{1,6}\s?", "", text)\<close>.  A match starts at a \<open>#\<close>, takes up to five more
  \<open>#\<close> (greedy) and then one whitespace character if there is one.  The scan goes on
  after the match.
\<close>

fun drop_hashes :: "nat \<Rightarrow> pystr \<Rightarrow> pystr" where
  "drop_hashes 0 s = s"
| "drop_hashes (Suc k) [] = []"
| "drop_hashes (Suc k) (c # cs) = (if c = ch CHR ''#'' then drop_hashes k cs else c # cs)"

definition drop_opt_space :: "pystr \<Rightarrow> pystr" where
  "drop_opt_space s = (case s of [] \<Rightarrow> [] | c # cs \<Rightarrow> if is_space c then cs else c # cs)"

lemma length_drop_hashes: "length (drop_hashes k s) \<le> length s"
  by (induction k s rule: drop_hashes.induct) auto

lemma length_drop_opt_space: "length (drop_opt_space s) \<le> length s"
  by (auto simp: drop_opt_space_def split: list.splits)

function remove_headings :: "pystr \<Rightarrow> pystr" where
  "remove_headings [] = []"
| "remove_headings (c # cs) =
     (if c = ch CHR ''#'' then remove_headings (drop_opt_space (drop_hashes 5 cs))
      else c # remove_headings cs)"
  by pat_completeness auto
termination
proof (relation "measure length")
  show "wf (measure length)" by simp
next
  fix c :: nat and cs :: pystr
  have "length (drop_opt_space (drop_hashes 5 cs)) \<le> length cs"
    using length_drop_opt_space length_drop_hashes order_trans by blast
  then show "(drop_opt_space (drop_hashes 5 cs), c # cs) \<in> measure length" by simp
next
  fix c :: nat and cs :: pystr
  show "(cs, c # cs) \<in> measure length" by simp
qed

text \<open>
  \<open>re.sub(r"\[.*?\]\(.*?\)", "", text)\<close>.  The dot does not match a newline and both
  stars are lazy.  \<open>find_close_paren\<close> is \<open>.*?\)\<close>: it returns what follows the first
  \<open>)\<close> when no newline comes before it.  \<open>match_link_body\<close> is \<open>.*?\]\(.*?\)\<close>: at each
  position it first tries \<open>\]\(.*?\)\<close> and, when that fails, lets the dot take one more
  character.
\<close>

fun find_close_paren :: "pystr \<Rightarrow> pystr option" where
  "find_close_paren [] = None"
| "find_close_paren (c # cs) =
     (if c = ch CHR '')'' then Some cs
      else if c = NL then None
      else find_close_paren cs)"

fun match_link_body :: "pystr \<Rightarrow> pystr option" where
  "match_link_body [] = None"
| "match_link_body (c # cs) =
     (case (if c = ch CHR '']'' then
              (case cs of [] \<Rightarrow> None
               | d # ds \<Rightarrow> if d = ch CHR ''('' then find_close_paren ds else None)
            else None) of
        Some r \<Rightarrow> Some r
      | None \<Rightarrow> if c = NL then None else match_link_body cs)"

lemma length_find_close_paren: "find_close_paren s = Some r \<Longrightarrow> length r < length s"
  by (induction s rule: find_close_paren.induct) (auto split: if_splits)

lemma length_match_link_body: "match_link_body s = Some r \<Longrightarrow> length r < length s"
proof (induction s rule: match_link_body.induct)
  case 1
  then show ?case by simp
next
  case (2 c cs)
  then show ?case
    by (auto split: if_splits option.splits list.splits dest!: length_find_close_paren)
qed

function remove_links :: "pystr \<Rightarrow> pystr" where
  "remove_links [] = []"
| "remove_links (c # cs) =
     (if c = ch CHR ''['' then
        (case match_link_body cs of
           Some r \<Rightarrow> remove_links r
         | None \<Rightarrow> c # remove_links cs)
      else c # remove_links cs)"
  by pat_completeness auto
termination
  by (relation "measure length") (auto dest: length_match_link_body)

text \<open>
  \<open>re.sub(r"(\*\*|__|~~|\*|_|`)", "", text)\<close>.  The alternatives are tried in the order
  written: the two-character ones first.
\<close>

definition is_emph :: "nat \<Rightarrow> bool" where
  "is_emph c \<longleftrightarrow> c = ch CHR ''*'' \<or> c = ch CHR ''_'' \<or> c = ch CHR 0x60"

fun remove_emphasis :: "pystr \<Rightarrow> pystr" where
  "remove_emphasis [] = []"
| "remove_emphasis [a] = (if is_emph a then [] else [a])"
| "remove_emphasis (a # b # cs) =
     (if (a = ch CHR ''*'' \<and> b = ch CHR ''*'') \<or> (a = ch CHR ''_'' \<and> b = ch CHR ''_'')
         \<or> (a = ch CHR ''~'' \<and> b = ch CHR ''~'')
      then remove_emphasis cs
      else if is_emph a then remove_emphasis (b # cs)
      else a # remove_emphasis (b # cs))"

text \<open>
  \<open>re.sub(r"^\s*[-*+]\s", "", text, flags=re.MULTILINE)\<close>.  With \<open>MULTILINE\<close> the anchor
  holds at the start of the text and right after each newline of the text being scanned,
  so the scan carries a flag \<open>bol\<close> saying whether the previous character was a newline.
  \<open>\s*\<close> is greedy and a bullet is no whitespace, so the bullet has to come right after
  the whole run of whitespace.  \<open>match_bullet\<close> returns the whitespace character that
  ended the match and the rest of the text.
\<close>

definition is_bullet :: "nat \<Rightarrow> bool" where
  "is_bullet c \<longleftrightarrow> c = ch CHR ''-'' \<or> c = ch CHR ''*'' \<or> c = ch CHR ''+''"

definition match_bullet :: "pystr \<Rightarrow> (nat \<times> pystr) option" where
  "match_bullet s =
     (case dropWhile is_space s of
        a # b # r \<Rightarrow> if is_bullet a \<and> is_space b then Some (b, r) else None
      | _ \<Rightarrow> None)"

lemma length_match_bullet: "match_bullet s = Some (b, r) \<Longrightarrow> length r < length s"
proof -
  assume a: "match_bullet s = Some (b, r)"
  have "length (dropWhile is_space s) \<le> length s"
    by (rule length_dropWhile_le)
  with a show ?thesis
    by (auto simp: match_bullet_def split: list.splits if_splits)
qed

function remove_bullets :: "bool \<Rightarrow> pystr \<Rightarrow> pystr" where
  "remove_bullets bol [] = []"
| "remove_bullets bol (c # cs) =
     (if bol then
        (case match_bullet (c # cs) of
           Some (b, r) \<Rightarrow> remove_bullets (b = NL) r
         | None \<Rightarrow> c # remove_bullets (c = NL) cs)
      else c # remove_bullets (c = NL) cs)"
  by pat_completeness auto
termination
  by (relation "measure (\<lambda>(bol, s). length s)") (auto dest: length_match_bullet)

text \<open>
  \<open>re.sub(r"\n{2,}", "\n", text)\<close>: a run of two or more newlines (greedy, so the whole
  run) becomes one newline.
\<close>

function collapse_newlines :: "pystr \<Rightarrow> pystr" where
  "collapse_newlines [] = []"
| "collapse_newlines [c] = [c]"
| "collapse_newlines (a # b # cs) =
     (if a = NL \<and> b = NL then NL # collapse_newlines (dropWhile (\<lambda>c. c = NL) cs)
      else a # collapse_newlines (b # cs))"
  by pat_completeness auto
termination
proof (relation "measure length")
  show "wf (measure length)" by simp
next
  fix a b :: nat and cs :: pystr
  have "length (dropWhile (\<lambda>c. c = NL) cs) \<le> length cs"
    by (rule length_dropWhile_le)
  then show "(dropWhile (\<lambda>c. c = NL) cs, a # b # cs) \<in> measure length" by simp
next
  fix a b :: nat and cs :: pystr
  show "(b # cs, a # b # cs) \<in> measure length" by simp
qed

definition clean_markdown :: "pystr \<Rightarrow> pystr" where
  "clean_markdown markdown_text =
     strip (collapse_newlines (remove_bullets True (remove_emphasis
       (remove_links (remove_headings markdown_text)))))"

section \<open>The chunker \<open>simple_text_splitter\<close>\<close>

text \<open>
  \<open>range(i, stop, step)\<close> for a positive step, and the slice \<open>text[i:j]\<close> for
  \<open>0 \<le> i \<le> j\<close>.  \<open>range\<close> raises \<open>ValueError\<close> for a zero step and is empty for a
  negative step when \<open>0 < stop\<close>; \<open>simple_text_splitter\<close> writes both cases out.
\<close>

function py_range :: "nat \<Rightarrow> nat \<Rightarrow> nat \<Rightarrow> nat list" where
  "py_range i stop step = (if 0 < step \<and> i < stop then i # py_range (i + step) stop step else [])"
  by pat_completeness auto
termination
  by (relation "measure (\<lambda>(i, stop, step). stop - i)") auto

declare py_range.simps [simp del]

definition slice :: "pystr \<Rightarrow> nat \<Rightarrow> nat \<Rightarrow> pystr" where
  "slice text i j = take (j - i) (drop i text)"

definition simple_text_splitter :: "pystr \<Rightarrow> int \<Rightarrow> error + pystr list" where
  "simple_text_splitter text chunk_size =
     (if text = [] then Inr []
      else if chunk_size = 0 then Inl ValueError
      else if chunk_size < 0 then Inr []
      else Inr (map (\<lambda>i. slice text i (i + nat chunk_size))
                  (py_range 0 (length text) (nat chunk_size))))"

section \<open>JSON values\<close>

text \<open>
  The values that \<open>json.load\<close> and \<open>response.json()\<close> return: \<open>None\<close>, booleans, numbers,
  strings, lists and dictionaries.  A dictionary is an association list with distinct
  keys, read with \<open>map_of\<close>.  The code never computes with a number (it only tests a
  value for being empty or \<open>None\<close> and formats the post number into the URL), so numbers
  are integers here.
\<close>

datatype json =
    JNull
  | JBool bool
  | JNum int
  | JStr pystr
  | JArr "json list"
  | JObj "(pystr \<times> json) list"

section \<open>The answer synthesizer \<open>generate_answer\<close>\<close>

text \<open>The sentinel chunk text (code points of the Japanese literal) and the fixed answer.\<close>

definition DUMMY_CHUNK :: pystr where
  "DUMMY_CHUNK = [101, 115, 97, 12363, 12425, 24773, 22577, 12364, 21462, 24471, 12373, 12428,
     12390, 12356, 12414, 12379, 12435, 12290]"

definition NOT_FOUND_ANSWER :: pystr where
  "NOT_FOUND_ANSWER = [101, 115, 97, 32, 119, 105, 107, 105, 12363, 12425, 38306, 36899, 24773,
     22577, 12434, 35211, 12388, 12369, 12425, 12428, 12414, 12379, 12435, 12391, 12375, 12383,
     12290]"

definition INST_END :: pystr where
  "INST_END = str ''[/INST]''"

text \<open>The separator \<open>"\n---\n"\<close> of the retrieved chunks.\<close>

definition CONTEXT_SEP :: pystr where
  "CONTEXT_SEP = [10, 45, 45, 45, 10]"

text \<open>The three literal parts of the prompt f-string, around \<open>{contexts}\<close> and \<open>{question}\<close>.\<close>

definition PROMPT_HEAD :: pystr where
  "PROMPT_HEAD = [10, 91, 73, 78, 83, 84, 93, 10, 20197, 19979, 12399, 101, 115, 97, 32, 119,
     105, 107, 105, 12363, 12425, 12398, 21442, 32771, 24773, 22577, 12391, 12377, 12290, 12371,
     12398, 24773, 22577, 12398, 12415, 12434, 20351, 29992, 12375, 12390, 12289, 27425, 12398,
     36074, 21839, 12395, 31777, 28500, 12395, 26085, 26412, 35486, 12391, 31572, 12360, 12390,
     12367, 12384, 12373, 12356, 12290, 24773, 22577, 12364, 19981, 36275, 12375, 12390, 12356,
     12427, 22580, 21512, 12399, 12289, 12300, 24773, 22577, 12364, 35211, 12388, 12363, 12426,
     12414, 12379, 12435, 12290, 12301, 12392, 31572, 12360, 12390, 12367, 12384, 12373, 12356,
     12290, 10, 21442, 32771, 24773, 22577, 58, 10]"

definition PROMPT_MID :: pystr where
  "PROMPT_MID = [10, 10, 36074, 21839, 58, 32]"

definition PROMPT_TAIL :: pystr where
  "PROMPT_TAIL = [10, 91, 47, 73, 78, 83, 84, 93, 10, 10, 22238, 31572, 58]"

text \<open>
  One retrieval result, the dictionary that \<open>retrieve\<close> builds: the chunk, its source
  and the distance (keys \<open>context\<close>, \<open>source\<close>, \<open>distance\<close>).  The distance is a number
  of the vector index and is kept abstract.
\<close>

record 'd retrieval_result =
  doc_context :: json
  doc_source :: json
  doc_distance :: 'd

text \<open>\<open>sep.join(items)\<close>; an item that is no \<open>str\<close> raises \<open>TypeError\<close>.\<close>

fun as_strs :: "json list \<Rightarrow> error + pystr list" where
  "as_strs [] = Inr []"
| "as_strs (JStr s # js) = (case as_strs js of Inl e \<Rightarrow> Inl e | Inr ss \<Rightarrow> Inr (s # ss))"
| "as_strs (_ # js) = Inl TypeError"

fun join_strs :: "pystr \<Rightarrow> pystr list \<Rightarrow> pystr" where
  "join_strs sep [] = []"
| "join_strs sep [s] = s"
| "join_strs sep (s # t # ss) = s @ sep @ join_strs sep (t # ss)"

definition py_join :: "pystr \<Rightarrow> json list \<Rightarrow> error + pystr" where
  "py_join sep items = (case as_strs items of Inl e \<Rightarrow> Inl e | Inr ss \<Rightarrow> Inr (join_strs sep ss))"

text \<open>
  \<open>s.rfind(sub)\<close>: the highest index at which \<open>sub\<close> occurs in \<open>s\<close>, and \<open>-1\<close> when it
  does not occur.
\<close>

definition occurs_at :: "pystr \<Rightarrow> pystr \<Rightarrow> nat \<Rightarrow> bool" where
  "occurs_at sub s i \<longleftrightarrow> take (length sub) (drop i s) = sub"

definition rfind :: "pystr \<Rightarrow> pystr \<Rightarrow> int" where
  "rfind s sub =
     (case rev (filter (occurs_at sub s) [0 ..< Suc (length s) - length sub]) of
        [] \<Rightarrow> - 1
      | i # _ \<Rightarrow> int i)"

text \<open>
  The extraction at the end of \<open>generate_answer\<close>.  Nothing in the \<open>try\<close> block can raise
  on a \<open>str\<close>, so the \<open>except\<close> branch (which also yields \<open>generated_text\<close>) is never taken.
\<close>

definition extract_answer :: "pystr \<Rightarrow> pystr" where
  "extract_answer generated_text =
     (let answer_start = rfind generated_text INST_END in
      if answer_start \<noteq> - 1
      then strip (drop (nat (answer_start + int (length INST_END))) generated_text)
      else generated_text)"

text \<open>
  The generation pipeline is an external collaborator.  It is a parameter: a function of
  the prompts it was given before (sampling makes every call different) and of the
  prompt, returning the \<open>generated_text\<close> of its single sequence or raising.  The state
  threaded through \<open>generate_answer\<close> is the list of prompts passed to the pipeline so far.
\<close>

type_synonym generator = "pystr list \<Rightarrow> pystr \<Rightarrow> error + pystr"

definition build_prompt :: "pystr \<Rightarrow> pystr \<Rightarrow> pystr" where
  "build_prompt contexts question = PROMPT_HEAD @ contexts @ PROMPT_MID @ question @ PROMPT_TAIL"

definition generate_answer ::
  "generator \<Rightarrow> pystr list \<Rightarrow> pystr \<Rightarrow> 'd retrieval_result list \<Rightarrow> (error + pystr) \<times> pystr list" where
  "generate_answer gen calls question relevant_docs =
     (if relevant_docs = [] \<or> doc_context (hd relevant_docs) = JStr DUMMY_CHUNK
      then (Inr NOT_FOUND_ANSWER, calls)
      else
        (case py_join CONTEXT_SEP (map doc_context relevant_docs) of
           Inl e \<Rightarrow> (Inl e, calls)
         | Inr contexts \<Rightarrow>
             (let prompt = build_prompt contexts question in
              case gen calls prompt of
                Inl e \<Rightarrow> (Inl e, calls @ [prompt])
              | Inr generated_text \<Rightarrow> (Inr (extract_answer generated_text), calls @ [prompt]))))"

section \<open>Dictionaries, iteration and truth values of JSON values\<close>

text \<open>
  \<open>x[key]\<close> for a string key: a dictionary without the key raises \<open>KeyError\<close>, every
  other value raises \<open>TypeError\<close>.  \<open>x.get(key, default)\<close>: only a dictionary has the
  method, every other value raises \<open>AttributeError\<close>.
\<close>

fun subscript :: "json \<Rightarrow> pystr \<Rightarrow> error + json" where
  "subscript (JObj kvs) k = (case map_of kvs k of None \<Rightarrow> Inl KeyError | Some v \<Rightarrow> Inr v)"
| "subscript _ k = Inl TypeError"

fun dict_get :: "json \<Rightarrow> pystr \<Rightarrow> json \<Rightarrow> error + json" where
  "dict_get (JObj kvs) k d = (case map_of kvs k of None \<Rightarrow> Inr d | Some v \<Rightarrow> Inr v)"
| "dict_get _ k d = Inl AttributeError"

text \<open>
  \<open>for item in x\<close>: a list gives its elements, a dictionary its keys, a string its
  characters; the other values are not iterable.  \<open>not x\<close> holds for \<open>None\<close>, \<open>False\<close>,
  zero and the empty string, list and dictionary.
\<close>

fun py_iter :: "json \<Rightarrow> error + json list" where
  "py_iter (JArr xs) = Inr xs"
| "py_iter (JObj kvs) = Inr (map (\<lambda>kv. JStr (fst kv)) kvs)"
| "py_iter (JStr s) = Inr (map (\<lambda>c. JStr [c]) s)"
| "py_iter _ = Inl TypeError"

fun truthy :: "json \<Rightarrow> bool" where
  "truthy JNull = False"
| "truthy (JBool b) = b"
| "truthy (JNum n) = (n \<noteq> 0)"
| "truthy (JStr s) = (s \<noteq> [])"
| "truthy (JArr xs) = (xs \<noteq> [])"
| "truthy (JObj kvs) = (kvs \<noteq> [])"

section \<open>The embedding provider and the vector index\<close>

text \<open>
  The embedding model and FAISS are external collaborators.  The provider is a
  parameter: \<open>embed\<close> is the vector of one text, \<open>dimension\<close> the length of every vector
  (\<open>shape[1]\<close> of an encoded batch) and \<open>encode_error\<close> says for which batches \<open>encode\<close>
  raises.  \<open>encode\<close> returns one vector for each text, in order.  A flat index holds its
  dimension and the vectors added to it, in the order they were added.
\<close>

record 'v provider =
  embed :: "pystr \<Rightarrow> 'v"
  dimension :: nat
  encode_error :: "pystr list \<Rightarrow> error option"

definition encode :: "'v provider \<Rightarrow> json list \<Rightarrow> error + 'v list" where
  "encode embedding_model texts =
     (case as_strs texts of
        Inl e \<Rightarrow> Inl e
      | Inr ss \<Rightarrow>
          (case encode_error embedding_model ss of
             Some e \<Rightarrow> Inl e
           | None \<Rightarrow> Inr (map (embed embedding_model) ss)))"

record 'v faiss_index =
  d :: nat
  vectors :: "'v list"

text \<open>\<open>index = faiss.IndexFlatL2(dimension); index.add(embeddings)\<close>.\<close>

definition new_index :: "'v provider \<Rightarrow> 'v list \<Rightarrow> 'v faiss_index" where
  "new_index embedding_model embeddings = \<lparr>d = dimension embedding_model, vectors = embeddings\<rparr>"

section \<open>The world: files, clock and remote source\<close>

text \<open>
  A file has a modification time and a content.  The content is what the readers of the
  source make of it: a JSON text is the value \<open>json.load\<close> returns and an index file
  the index \<open>faiss.read_index\<close> returns; anything else is malformed for both.  Times are
  seconds since the epoch, as real numbers.
\<close>

datatype 'v content =
    JsonText json
  | IndexBin "'v faiss_index"
  | Malformed

record 'v disk_file =
  mtime :: real
  content :: "'v content"

text \<open>
  The two kinds of request the fetcher sends, with what varies in them: the page of the
  listing call and the post number of the detail call.  A response has a status code and
  the outcome of \<open>response.json()\<close>.
\<close>

datatype request =
    ListPosts int
  | PostDetail json

record response =
  status_code :: int
  body :: "error + json"

text \<open>
  The state that the builder reads and changes: the files, the clock, and the requests
  sent so far.  The remote source is a parameter: given the requests sent before and the
  request, it answers or the transport fails (\<open>requests.get\<close> raises).
\<close>

record 'v world =
  files :: "pystr \<Rightarrow> 'v disk_file option"
  now :: real
  requests :: "request list"

type_synonym remote = "request list \<Rightarrow> request \<Rightarrow> error + response"

definition http_get :: "remote \<Rightarrow> request \<Rightarrow> 'v world \<Rightarrow> (error + response) \<times> 'v world" where
  "http_get net req w = (net (requests w) req, w\<lparr>requests := requests w @ [req]\<rparr>)"

text \<open>\<open>response.raise_for_status()\<close> raises \<open>HTTPError\<close> for a status from 400 to 599.\<close>

definition raise_for_status :: "response \<Rightarrow> error + unit" where
  "raise_for_status r =
     (if 400 \<le> status_code r \<and> status_code r < 600 then Inl HTTPError else Inr ())"

section \<open>The cache store\<close>

definition CACHE_FILE :: pystr where
  "CACHE_FILE = str ''esa_data_cache.json''"

definition FAISS_INDEX_FILE :: pystr where
  "FAISS_INDEX_FILE = str ''esa_faiss_index.bin''"

definition CACHE_EXPIRY_SECONDS :: real where
  "CACHE_EXPIRY_SECONDS = 24 * 60 * 60"

definition path_exists :: "'v world \<Rightarrow> pystr \<Rightarrow> bool" where
  "path_exists w p \<longleftrightarrow> files w p \<noteq> None"

definition getmtime :: "'v world \<Rightarrow> pystr \<Rightarrow> error + real" where
  "getmtime w p = (case files w p of None \<Rightarrow> Inl OSError | Some f \<Rightarrow> Inr (mtime f))"

definition check_cache_validity :: "'v world \<Rightarrow> error + bool" where
  "check_cache_validity w =
     (if \<not> path_exists w CACHE_FILE \<or> \<not> path_exists w FAISS_INDEX_FILE then Inr False
      else
        (case getmtime w CACHE_FILE of
           Inl e \<Rightarrow> Inl e
         | Inr file_mtime \<Rightarrow>
             (let time_since_last_update = now w - file_mtime
              in Inr (time_since_last_update < CACHE_EXPIRY_SECONDS))))"

text \<open>
  \<open>load_from_cache\<close>: \<open>open\<close> and \<open>json.load\<close>, the comprehension over the items, and
  \<open>faiss.read_index\<close>.  Each of them can raise.
\<close>

definition json_load :: "'v world \<Rightarrow> pystr \<Rightarrow> error + json" where
  "json_load w p =
     (case files w p of
        None \<Rightarrow> Inl OSError
      | Some f \<Rightarrow> (case content f of JsonText j \<Rightarrow> Inr j | _ \<Rightarrow> Inl JSONDecodeError))"

definition read_index :: "'v world \<Rightarrow> pystr \<Rightarrow> error + 'v faiss_index" where
  "read_index w p =
     (case files w p of
        None \<Rightarrow> Inl RuntimeError
      | Some f \<Rightarrow> (case content f of IndexBin i \<Rightarrow> Inr i | _ \<Rightarrow> Inl RuntimeError))"

fun load_items :: "json list \<Rightarrow> error + (json \<times> json) list" where
  "load_items [] = Inr []"
| "load_items (item # items) =
     (case subscript item (str ''chunk'') of
        Inl e \<Rightarrow> Inl e
      | Inr chunk \<Rightarrow>
          (case subscript item (str ''metadata'') of
             Inl e \<Rightarrow> Inl e
           | Inr metadata \<Rightarrow>
               (case load_items items of
                  Inl e \<Rightarrow> Inl e
                | Inr rest \<Rightarrow> Inr ((chunk, metadata) # rest))))"

definition load_from_cache :: "'v world \<Rightarrow> error + ((json \<times> json) list \<times> 'v faiss_index)" where
  "load_from_cache w =
     (case json_load w CACHE_FILE of
        Inl e \<Rightarrow> Inl e
      | Inr data \<Rightarrow>
          (case py_iter data of
             Inl e \<Rightarrow> Inl e
           | Inr items \<Rightarrow>
               (case load_items items of
                  Inl e \<Rightarrow> Inl e
                | Inr documents_with_metadata \<Rightarrow>
                    (case read_index w FAISS_INDEX_FILE of
                       Inl e \<Rightarrow> Inl e
                     | Inr index \<Rightarrow> Inr (documents_with_metadata, index)))))"

text \<open>
  \<open>save_to_cache\<close> writes the list of \<open>{"chunk": ..., "metadata": ...}\<close> records and then
  the index; both files get the current time.  Failures of the file system while writing
  are not modelled.
\<close>

definition write_file :: "pystr \<Rightarrow> 'v content \<Rightarrow> 'v world \<Rightarrow> 'v world" where
  "write_file p c w = w\<lparr>files := (files w)(p \<mapsto> \<lparr>mtime = now w, content = c\<rparr>)\<rparr>"

definition save_to_cache :: "(json \<times> json) list \<Rightarrow> 'v faiss_index \<Rightarrow> 'v world \<Rightarrow> 'v world" where
  "save_to_cache documents_with_metadata index w =
     (let cache_data = map (\<lambda>(chunk, metadata).
            JObj [(str ''chunk'', chunk), (str ''metadata'', metadata)]) documents_with_metadata
      in write_file FAISS_INDEX_FILE (IndexBin index)
           (write_file CACHE_FILE (JsonText (JArr cache_data)) w))"

section \<open>The corpus fetcher\<close>

text \<open>
  The metadata dictionary built for each chunk of a post.  \<open>post["url"]\<close> and
  \<open>post["full_name"]\<close> raise when the key is missing; \<open>post.get\<close> gives \<open>None\<close> then.
\<close>

definition post_metadata :: "json \<Rightarrow> error + json" where
  "post_metadata post =
     (case subscript post (str ''url'') of
        Inl e \<Rightarrow> Inl e
      | Inr url \<Rightarrow>
          (case subscript post (str ''full_name'') of
             Inl e \<Rightarrow> Inl e
           | Inr full_name \<Rightarrow>
               (case dict_get post (str ''category'') JNull of
                  Inl e \<Rightarrow> Inl e
                | Inr category \<Rightarrow>
                    (case dict_get post (str ''tags'') JNull of
                       Inl e \<Rightarrow> Inl e
                     | Inr tags \<Rightarrow>
                         Inr (JObj [(str ''source'', url), (str ''title'', full_name),
                                    (str ''category'', category), (str ''tags'', tags)])))))"

text \<open>\<open>clean_markdown(body_md)\<close>: \<open>re.sub\<close> raises \<open>TypeError\<close> when the body is no string.\<close>

definition clean_body :: "json \<Rightarrow> error + pystr" where
  "clean_body body_md = (case body_md of JStr s \<Rightarrow> Inr (clean_markdown s) | _ \<Rightarrow> Inl TypeError)"

text \<open>
  The body of \<open>for post in posts\<close>: the pairs that one post appends to \<open>all_documents\<close>,
  or the exception it raises.  The metadata dictionary is built inside the loop over the
  chunks, so a post without chunks never evaluates it; and since it is the same for every
  chunk, it raises at the first chunk or never, before anything of the post is appended.
\<close>

definition fetch_post :: "remote \<Rightarrow> json \<Rightarrow> 'v world \<Rightarrow> (error + (json \<times> json) list) \<times> 'v world" where
  "fetch_post net post w =
     (case subscript post (str ''number'') of
        Inl e \<Rightarrow> (Inl e, w)
      | Inr post_number \<Rightarrow>
          (case http_get net (PostDetail post_number) w of
             (Inl e, w1) \<Rightarrow> (Inl e, w1)
           | (Inr detail_response, w1) \<Rightarrow>
               (case raise_for_status detail_response of
                  Inl e \<Rightarrow> (Inl e, w1)
                | Inr _ \<Rightarrow>
                    (case body detail_response of
                       Inl e \<Rightarrow> (Inl e, w1)
                     | Inr post_detail \<Rightarrow>
                         (case dict_get post_detail (str ''body_md'') (JStr []) of
                            Inl e \<Rightarrow> (Inl e, w1)
                          | Inr body_md \<Rightarrow>
                              (case clean_body body_md of
                                 Inl e \<Rightarrow> (Inl e, w1)
                               | Inr plain_text \<Rightarrow>
                                   (case simple_text_splitter plain_text 500 of
                                      Inl e \<Rightarrow> (Inl e, w1)
                                    | Inr chunks \<Rightarrow>
                                        if chunks = [] then (Inr [], w1)
                                        else
                                          (case post_metadata post of
                                             Inl e \<Rightarrow> (Inl e, w1)
                                           | Inr metadata \<Rightarrow>
                                               (Inr (map (\<lambda>chunk. (JStr chunk, metadata)) chunks),
                                                w1)))))))))"

text \<open>
  The loop over the posts of one page.  It stops at the first post that raises: the
  exception leaves the \<open>for\<close> loop, and what was appended before stays in \<open>all_documents\<close>.
\<close>

fun fetch_posts ::
  "remote \<Rightarrow> json list \<Rightarrow> (json \<times> json) list \<Rightarrow> 'v world
     \<Rightarrow> error option \<times> (json \<times> json) list \<times> 'v world" where
  "fetch_posts net [] all_documents w = (None, all_documents, w)"
| "fetch_posts net (post # posts) all_documents w =
     (case fetch_post net post w of
        (Inl e, w1) \<Rightarrow> (Some e, all_documents, w1)
      | (Inr pairs, w1) \<Rightarrow> fetch_posts net posts (all_documents @ pairs) w1)"

text \<open>
  The \<open>while True\<close> loop over the pages.  Every \<open>break\<close> and both \<open>except\<close> handlers leave
  the loop with \<open>all_documents\<close> as it is at that moment; the handlers only print.
  \<open>fetch_listing\<close> is the first half of the loop body, up to \<open>for post in posts\<close>: the
  listing call, the status check, \<open>response.json()\<close>, \<open>posts_data.get("posts", [])\<close>, the
  test \<open>not posts\<close> and \<open>len(posts)\<close>.  It gives \<open>None\<close> when the loop is left there, and
  otherwise the listing and the posts that the \<open>for\<close> loop goes through.  The loop need not
  terminate (a source may report a next page for ever), so \<open>fetch_pages\<close> is partial:
  \<open>None\<close> is a run that does not return.
\<close>

definition fetch_listing :: "remote \<Rightarrow> int \<Rightarrow> 'v world \<Rightarrow> (json \<times> json list) option \<times> 'v world" where
  "fetch_listing net page w =
     (case http_get net (ListPosts page) w of
        (Inl e, w1) \<Rightarrow> (None, w1)
      | (Inr response, w1) \<Rightarrow>
          if status_code response \<noteq> 200 then (None, w1)
          else
            (case body response of
               Inl e \<Rightarrow> (None, w1)
             | Inr posts_data \<Rightarrow>
                 (case dict_get posts_data (str ''posts'') (JArr []) of
                    Inl e \<Rightarrow> (None, w1)
                  | Inr posts \<Rightarrow>
                      if \<not> truthy posts then (None, w1)
                      else
                        (case py_iter posts of
                           Inl e \<Rightarrow> (None, w1)
                         | Inr ps \<Rightarrow> (Some (posts_data, ps), w1)))))"

partial_function (option) fetch_pages ::
  "remote \<Rightarrow> int \<Rightarrow> (json \<times> json) list \<Rightarrow> 'v world \<Rightarrow> ((json \<times> json) list \<times> 'v world) option" where
  "fetch_pages net page all_documents w =
     (case fetch_listing net page w of
        (None, w1) \<Rightarrow> Some (all_documents, w1)
      | (Some (posts_data, ps), w1) \<Rightarrow>
          (case fetch_posts net ps all_documents w1 of
             (Some e, all_documents', w2) \<Rightarrow> Some (all_documents', w2)
           | (None, all_documents', w2) \<Rightarrow>
               (case dict_get posts_data (str ''next_page'') JNull of
                  Inl e \<Rightarrow> Some (all_documents', w2)
                | Inr next_page \<Rightarrow>
                    if next_page = JNull then Some (all_documents', w2)
                    else fetch_pages net (page + 1) all_documents' w2)))"

declare fetch_pages.simps [code]

section \<open>The index builder \<open>fetch_esa_documents\<close>\<close>

definition NO_DATA_METADATA :: json where
  "NO_DATA_METADATA = JObj [(str ''source'', JStr (str ''No Data''))]"

text \<open>
  Step 3 of the builder, after the loop: the sentinel pair when nothing was fetched,
  otherwise the embeddings of all chunks, the index and the saved cache.  An exception of
  \<open>encode\<close> is not caught.
\<close>

definition build_index ::
  "'v provider \<Rightarrow> (json \<times> json) list \<Rightarrow> 'v world
     \<Rightarrow> (error + ((json \<times> json) list \<times> 'v faiss_index)) \<times> 'v world" where
  "build_index embedding_model all_documents w =
     (if all_documents = [] then
        (case encode embedding_model [JStr DUMMY_CHUNK] of
           Inl e \<Rightarrow> (Inl e, w)
         | Inr dummy_embedding \<Rightarrow>
             (Inr ([(JStr DUMMY_CHUNK, NO_DATA_METADATA)], new_index embedding_model dummy_embedding), w))
      else
        (case encode embedding_model (map fst all_documents) of
           Inl e \<Rightarrow> (Inl e, w)
         | Inr doc_embeddings \<Rightarrow>
             (let index = new_index embedding_model doc_embeddings
              in (Inr (all_documents, index), save_to_cache all_documents index w))))"

definition fetch_and_build ::
  "remote \<Rightarrow> 'v provider \<Rightarrow> 'v world
     \<Rightarrow> ((error + ((json \<times> json) list \<times> 'v faiss_index)) \<times> 'v world) option" where
  "fetch_and_build net embedding_model w =
     (case fetch_pages net 1 [] w of
        None \<Rightarrow> None
      | Some (all_documents, w1) \<Rightarrow> Some (build_index embedding_model all_documents w1))"

text \<open>
  \<open>fetch_esa_documents\<close>.  An exception of \<open>load_from_cache\<close> is caught and printed, and
  the function goes on to the fetch.
\<close>

definition fetch_esa_documents ::
  "remote \<Rightarrow> 'v provider \<Rightarrow> 'v world
     \<Rightarrow> ((error + ((json \<times> json) list \<times> 'v faiss_index)) \<times> 'v world) option" where
  "fetch_esa_documents net embedding_model w =
     (case check_cache_validity w of
        Inl e \<Rightarrow> Some (Inl e, w)
      | Inr valid \<Rightarrow>
          if valid then
            (case load_from_cache w of
               Inr loaded \<Rightarrow> Some (Inr loaded, w)
             | Inl e \<Rightarrow> fetch_and_build net embedding_model w)
          else fetch_and_build net embedding_model w)"

section \<open>The retriever\<close>

text \<open>
  \<open>xs[i]\<close> for an index that is not negative.  The module keeps the chunks and the
  metadata of the pair in two lists, \<open>documents\<close> and \<open>metadatas\<close>.  The search of the
  vector index is external: it is a parameter that gives, for the query vectors and
  \<open>top_k\<close>, the first row of distances and of positions, as pairs.  \<open>retrieve\<close> skips a
  negative position.
\<close>

definition py_index :: "'a list \<Rightarrow> int \<Rightarrow> error + 'a" where
  "py_index xs i = (if 0 \<le> i \<and> i < int (length xs) then Inr (xs ! nat i) else Inl IndexError)"

definition lookup_result :: "json list \<Rightarrow> json list \<Rightarrow> 'd \<times> int \<Rightarrow> error + 'd retrieval_result" where
  "lookup_result documents metadatas hit =
     (case py_index documents (snd hit) of
        Inl e \<Rightarrow> Inl e
      | Inr chunk \<Rightarrow>
          (case py_index metadatas (snd hit) of
             Inl e \<Rightarrow> Inl e
           | Inr metadata \<Rightarrow>
               (case subscript metadata (str ''source'') of
                  Inl e \<Rightarrow> Inl e
                | Inr src \<Rightarrow> Inr \<lparr>doc_context = chunk, doc_source = src, doc_distance = fst hit\<rparr>)))"

fun collect_results :: "json list \<Rightarrow> json list \<Rightarrow> ('d \<times> int) list \<Rightarrow> error + 'd retrieval_result list" where
  "collect_results documents metadatas [] = Inr []"
| "collect_results documents metadatas (hit # hits) =
     (if 0 \<le> snd hit then
        (case lookup_result documents metadatas hit of
           Inl e \<Rightarrow> Inl e
         | Inr r \<Rightarrow>
             (case collect_results documents metadatas hits of
                Inl e \<Rightarrow> Inl e
              | Inr rs \<Rightarrow> Inr (r # rs)))
      else collect_results documents metadatas hits)"

definition retrieve ::
  "'v provider \<Rightarrow> ('v faiss_index \<Rightarrow> 'v list \<Rightarrow> nat \<Rightarrow> ('d \<times> int) list) \<Rightarrow> (json \<times> json) list
     \<Rightarrow> 'v faiss_index \<Rightarrow> pystr \<Rightarrow> nat \<Rightarrow> error + 'd retrieval_result list" where
  "retrieve embedding_model search documents_with_metadata index query top_k =
     (let documents = map fst documents_with_metadata;
          metadatas = map snd documents_with_metadata
      in case encode embedding_model [JStr query] of
           Inl e \<Rightarrow> Inl e
         | Inr query_embedding \<Rightarrow>
             collect_results documents metadatas (search index query_embedding top_k))"

section \<open>A remote source, a provider and worlds for the examples\<close>

text \<open>
  A source with two pages.  Page 1 lists post 1 and reports a next page; page 2 lists the
  posts 2, 3 and 4 and reports a next page too.  The detail of post 1 has the body
  \<open># Hello\<close>, that of post 2 the body \<open>**Hi**\<close>; the detail call of post 3 answers with
  status 500; post 4 has a body again.  A source that refuses every call with status 401.
  A provider whose vector of a text is its length.
\<close>

definition ex_post :: "int \<Rightarrow> pystr \<Rightarrow> json" where
  "ex_post n url = JObj [(str ''number'', JNum n), (str ''url'', JStr url),
                         (str ''full_name'', JStr (str ''t''))]"

definition ex_metadata :: "pystr \<Rightarrow> json" where
  "ex_metadata url = JObj [(str ''source'', JStr url), (str ''title'', JStr (str ''t'')),
                           (str ''category'', JNull), (str ''tags'', JNull)]"

definition ex_page1 :: json where
  "ex_page1 = JObj [(str ''posts'', JArr [ex_post 1 (str ''a'')]), (str ''next_page'', JNum 2)]"

definition ex_page2 :: json where
  "ex_page2 = JObj [(str ''posts'', JArr [ex_post 2 (str ''b''), ex_post 3 (str ''c''),
                                          ex_post 4 (str ''d'')]),
                    (str ''next_page'', JNum 3)]"

definition ex_remote :: remote where
  "ex_remote history req =
     (case req of
        ListPosts page \<Rightarrow>
          Inr \<lparr>status_code = 200, body = Inr (if page = 1 then ex_page1 else ex_page2)\<rparr>
      | PostDetail n \<Rightarrow>
          if n = JNum 3 then Inr \<lparr>status_code = 500, body = Inl JSONDecodeError\<rparr>
          else if n = JNum 2
          then Inr \<lparr>status_code = 200, body = Inr (JObj [(str ''body_md'', JStr (str ''**Hi**''))])\<rparr>
          else Inr \<lparr>status_code = 200, body = Inr (JObj [(str ''body_md'', JStr (str ''# Hello''))])\<rparr>)"

text \<open>A source that lists the posts 2, 3 and 4 on every page and fails every detail call.\<close>

definition ex_broken :: remote where
  "ex_broken history req =
     (case req of
        ListPosts page \<Rightarrow> Inr \<lparr>status_code = 200, body = Inr ex_page2\<rparr>
      | PostDetail n \<Rightarrow> Inl RequestException)"

definition ex_refusing :: remote where
  "ex_refusing history req = Inr \<lparr>status_code = 401, body = Inr (JObj [(str ''error'', JStr (str ''unauthorized''))])\<rparr>"

definition ex_provider :: "nat provider" where
  "ex_provider = \<lparr>embed = length, dimension = 4, encode_error = (\<lambda>texts. None)\<rparr>"

definition ex_empty_world :: "nat world" where
  "ex_empty_world = \<lparr>files = Map.empty, now = 1000, requests = []\<rparr>"

text \<open>The empty world after the requests \<open>reqs\<close> were sent.\<close>

definition ex_after :: "request list \<Rightarrow> nat world" where
  "ex_after reqs = ex_empty_world\<lparr>requests := reqs\<rparr>"

definition ex_corrupt_world :: "nat world" where
  "ex_corrupt_world =
     \<lparr>files = [CACHE_FILE \<mapsto> \<lparr>mtime = 900, content = Malformed\<rparr>,
               FAISS_INDEX_FILE \<mapsto> \<lparr>mtime = 900, content = Malformed\<rparr>],
      now = 1000, requests = []\<rparr>"

definition ex_stale_world :: "nat world" where
  "ex_stale_world =
     \<lparr>files = [CACHE_FILE \<mapsto> \<lparr>mtime = 900, content = JsonText (JArr
                  [JObj [(str ''chunk'', JStr (str ''Hello'')), (str ''metadata'', JObj [])]])\<rparr>,
               FAISS_INDEX_FILE \<mapsto> \<lparr>mtime = 100, content = IndexBin \<lparr>d = 4, vectors = []\<rparr>\<rparr>],
      now = 1000, requests = []\<rparr>"

section \<open>Predicates used in the statements\<close>

text \<open>
  The cache is hit when it is valid and loads.  A detail call fails when the transport
  raises or the status is one for which \<open>raise_for_status\<close> raises.  A chunk and a vector
  belong together when the chunk is a text and the vector is its embedding.
\<close>

definition cache_hit :: "'v world \<Rightarrow> bool" where
  "cache_hit w \<longleftrightarrow> check_cache_validity w = Inr True \<and> \<not> isl (load_from_cache w)"

definition detail_fails :: "remote \<Rightarrow> json \<Rightarrow> 'v world \<Rightarrow> bool" where
  "detail_fails net post_number w \<longleftrightarrow>
     (case net (requests w) (PostDetail post_number) of
        Inl e \<Rightarrow> True
      | Inr r \<Rightarrow> 400 \<le> status_code r \<and> status_code r < 600)"

definition embeds :: "'v provider \<Rightarrow> json \<Rightarrow> 'v \<Rightarrow> bool" where
  "embeds embedding_model chunk v \<longleftrightarrow>
     (case chunk of JStr t \<Rightarrow> v = embed embedding_model t | _ \<Rightarrow> False)"

text \<open>
  The states of the \<open>while\<close> loop in the run that starts in the world \<open>w\<close>: the loop starts
  at page 1 with no pair, and it goes on to the next page when the listing gave posts, no
  post raised and the listing reports a next page.
\<close>

inductive reaches :: "remote \<Rightarrow> 'v world \<Rightarrow> int \<Rightarrow> (json \<times> json) list \<Rightarrow> 'v world \<Rightarrow> bool"
  for net :: remote and w :: "'v world" where
  reaches_start: "reaches net w 1 [] w"
| reaches_step:
    "reaches net w page all_documents w0 \<Longrightarrow>
     fetch_listing net page w0 = (Some (posts_data, ps), w1) \<Longrightarrow>
     fetch_posts net ps all_documents w1 = (None, all_documents', w2) \<Longrightarrow>
     dict_get posts_data (str ''next_page'') JNull = Inr next_page \<Longrightarrow>
     next_page \<noteq> JNull \<Longrightarrow>
     reaches net w (page + 1) all_documents' w2"

code_pred reaches .

text \<open>
  A pair is aligned when the index holds as many vectors as the list holds chunks and
  the vector at each position is the embedding of the chunk at that position.
\<close>

definition aligned :: "'v provider \<Rightarrow> (json \<times> json) list \<Rightarrow> 'v faiss_index \<Rightarrow> bool" where
  "aligned embedding_model documents_with_metadata index \<longleftrightarrow>
     length (vectors index) = length documents_with_metadata \<and>
     (\<forall>i < length documents_with_metadata.
        embeds embedding_model (fst (documents_with_metadata ! i)) (vectors index ! i))"

text \<open>
  What the run against \<open>ex_remote\<close> accumulates before the failing call, its index,
  and the requests that the run sends.
\<close>

definition ex_docs :: "(json \<times> json) list" where
  "ex_docs = [(JStr (str ''Hello''), ex_metadata (str ''a'')),
              (JStr (str ''Hi''), ex_metadata (str ''b''))]"

definition ex_index :: "nat faiss_index" where
  "ex_index = \<lparr>d = 4, vectors = [5, 2]\<rparr>"

definition ex_requests :: "request list" where
  "ex_requests = [ListPosts 1, PostDetail (JNum 1), ListPosts 2, PostDetail (JNum 2),
                  PostDetail (JNum 3)]"

section \<open>Properties of the chunker\<close>

lemma concat_slices:
  "0 < k \<Longrightarrow> concat (map (\<lambda>i. slice t i (i + k)) (py_range i (length t) k)) = drop i t"
proof (induction i "length t" k rule: py_range.induct)
  case (1 i step)
  show ?case
  proof (cases "i < length t")
    case True
    have "concat (map (\<lambda>i. slice t i (i + step)) (py_range i (length t) step))
          = slice t i (i + step) @ concat (map (\<lambda>i. slice t i (i + step)) (py_range (i + step) (length t) step))"
      using True "1.prems" by (subst py_range.simps) simp
    also have "\<dots> = take step (drop i t) @ drop (i + step) t"
      using "1.hyps" True "1.prems" by (simp add: slice_def)
    also have "\<dots> = drop i t"
      by (metis add.commute append_take_drop_id drop_drop)
    finally show ?thesis .
  next
    case False
    then show ?thesis by (subst py_range.simps) simp
  qed
qed

lemma length_slice: "length (slice t i (i + k)) \<le> k"
  by (simp add: slice_def)

text \<open>
  Claim C2.  For every text \<open>t\<close> and every chunk size \<open>n > 0\<close>, \<open>simple_text_splitter\<close>
  returns chunks whose concatenation, in order, is \<open>t\<close>; every chunk has at most \<open>n\<close>
  characters; and the empty text gives the empty sequence.
\<close>

theorem C2_splitter:
  "0 < n \<Longrightarrow>
     (\<exists>cs. simple_text_splitter t n = Inr cs \<and> concat cs = t \<and> (\<forall>c \<in> set cs. int (length c) \<le> n))
     \<and> simple_text_splitter [] n = Inr []"
proof -
  assume n: "0 < n"
  let ?cs = "map (\<lambda>i. slice t i (i + nat n)) (py_range 0 (length t) (nat n))"
  have k: "0 < nat n" using n by simp
  have c: "concat ?cs = t" using concat_slices [OF k, of t 0] by simp
  have l: "\<forall>c \<in> set ?cs. int (length c) \<le> n"
  proof
    fix c assume "c \<in> set ?cs"
    then obtain i where "c = slice t i (i + nat n)" by auto
    then have "length c \<le> nat n" by (simp add: length_slice)
    then show "int (length c) \<le> n" using n by linarith
  qed
  show ?thesis
  proof (cases "t = []")
    case True
    then show ?thesis by (simp add: simple_text_splitter_def)
  next
    case False
    then have "simple_text_splitter t n = Inr ?cs"
      using n by (simp add: simple_text_splitter_def)
    with c l show ?thesis by (simp add: simple_text_splitter_def)
  qed
qed

theorem C2_splitter_witness:
  "(0::int) < 2 \<and> simple_text_splitter (str ''abcde'') 2 = Inr [str ''ab'', str ''cd'', str ''e'']
   \<and> (\<exists>cs. simple_text_splitter (str ''abcde'') 2 = Inr cs \<and> concat cs = str ''abcde''
        \<and> (\<forall>c \<in> set cs. int (length c) \<le> 2))"
proof -
  have h: "(0::int) < 2" by simp
  have e: "simple_text_splitter (str ''abcde'') 2 = Inr [str ''ab'', str ''cd'', str ''e'']"
    by code_simp
  show ?thesis using h e C2_splitter [OF h, of "str ''abcde''"] by blast
qed

section \<open>Properties of the normalizer\<close>


lemma set_strip: "set (strip s) \<subseteq> set s"
proof -
  have "set (strip s) = set (dropWhile is_space (rev (dropWhile is_space s)))"
    by (simp add: strip_def)
  also have "\<dots> \<subseteq> set (rev (dropWhile is_space s))"
    by (meson set_dropWhileD subsetI)
  also have "\<dots> \<subseteq> set s"
    using set_dropWhileD by fastforce
  finally show ?thesis .
qed

lemma set_collapse_newlines: "set (collapse_newlines s) \<subseteq> set s"
proof (induction s rule: collapse_newlines.induct)
  case 1
  then show ?case by simp
next
  case (2 c)
  then show ?case by simp
next
  case (3 a b cs)
  have d: "set (dropWhile (\<lambda>c. c = NL) cs) \<subseteq> set cs"
    by (meson set_dropWhileD subsetI)
  show ?case
  proof (cases "a = NL \<and> b = NL")
    case True
    with 3 d show ?thesis by auto
  next
    case False
    with 3 show ?thesis by auto
  qed
qed

lemma set_match_bullet: "match_bullet s = Some (b, r) \<Longrightarrow> set r \<subseteq> set s"
proof -
  assume a: "match_bullet s = Some (b, r)"
  then obtain x where "dropWhile is_space s = x # b # r"
    by (auto simp: match_bullet_def split: list.splits if_splits)
  then have "set r \<subseteq> set (dropWhile is_space s)" by auto
  also have "\<dots> \<subseteq> set s" by (meson set_dropWhileD subsetI)
  finally show ?thesis .
qed

lemma set_remove_bullets: "set (remove_bullets bol s) \<subseteq> set s"
proof (induction bol s rule: remove_bullets.induct)
  case (1 bol)
  then show ?case by simp
next
  case (2 bol c cs)
  show ?case
  proof (cases "bol")
    case False
    with 2 show ?thesis by auto
  next
    case True
    show ?thesis
    proof (cases "match_bullet (c # cs)")
      case None
      with 2 True show ?thesis by auto
    next
      case (Some p)
      obtain b r where p: "p = (b, r)" by (cases p)
      have "set (remove_bullets (b = NL) r) \<subseteq> set r"
        using 2 True Some p by simp
      moreover have "set r \<subseteq> set (c # cs)"
        using set_match_bullet Some p by blast
      ultimately show ?thesis using True Some p by auto
    qed
  qed
qed

lemma set_remove_emphasis: "set (remove_emphasis s) \<subseteq> set s"
  by (induction s rule: remove_emphasis.induct) auto

lemma remove_emphasis_no_emph: "is_emph c \<Longrightarrow> c \<notin> set (remove_emphasis s)"
  by (induction s rule: remove_emphasis.induct) auto

lemma set_find_close_paren: "find_close_paren s = Some r \<Longrightarrow> set r \<subseteq> set s"
  by (induction s rule: find_close_paren.induct) (auto split: if_splits)

lemma set_match_link_body: "match_link_body s = Some r \<Longrightarrow> set r \<subseteq> set s"
proof (induction s rule: match_link_body.induct)
  case 1
  then show ?case by simp
next
  case (2 c cs)
  then show ?case
    by (auto split: if_splits option.splits list.splits dest!: set_find_close_paren)
qed

lemma set_remove_links: "set (remove_links s) \<subseteq> set s"
proof (induction s rule: remove_links.induct)
  case 1
  then show ?case by simp
next
  case (2 c cs)
  show ?case
  proof (cases "c = ch CHR ''[''")
    case False
    with 2 show ?thesis by auto
  next
    case True
    show ?thesis
    proof (cases "match_link_body cs")
      case None
      with 2 True show ?thesis by auto
    next
      case (Some r)
      have "set (remove_links r) \<subseteq> set r"
        using 2 True Some by simp
      moreover have "set r \<subseteq> set cs"
        using set_match_link_body Some by blast
      ultimately show ?thesis using True Some by auto
    qed
  qed
qed

lemma set_drop_hashes: "set (drop_hashes k s) \<subseteq> set s"
  by (induction k s rule: drop_hashes.induct) auto

lemma set_drop_opt_space: "set (drop_opt_space s) \<subseteq> set s"
  by (auto simp: drop_opt_space_def split: list.splits)

lemma remove_headings_no_hash: "ch CHR ''#'' \<notin> set (remove_headings s)"
  by (induction s rule: remove_headings.induct) auto

lemma clean_markdown_no_emph: "is_emph c \<Longrightarrow> c \<notin> set (clean_markdown x)"
proof -
  assume e: "is_emph c"
  let ?a = "remove_emphasis (remove_links (remove_headings x))"
  have "set (clean_markdown x) \<subseteq> set ?a"
    unfolding clean_markdown_def
    using set_strip set_collapse_newlines set_remove_bullets by (meson order_trans)
  with remove_emphasis_no_emph [OF e] show ?thesis by blast
qed

lemma clean_markdown_no_hash: "ch CHR ''#'' \<notin> set (clean_markdown x)"
proof -
  have "set (clean_markdown x) \<subseteq> set (remove_headings x)"
    unfolding clean_markdown_def
    using set_strip set_collapse_newlines set_remove_bullets set_remove_emphasis set_remove_links
    by (meson order_trans)
  with remove_headings_no_hash show ?thesis by blast
qed

text \<open>
  Claim C10.  The output of \<open>clean_markdown\<close> contains no asterisk, no underscore and
  no backtick at all: they are removed wherever they stand, also inside an identifier
  such as \<open>snake_case\<close>.
\<close>

theorem C10_no_emphasis_characters:
  "ch CHR ''*'' \<notin> set (clean_markdown x) \<and> ch CHR ''_'' \<notin> set (clean_markdown x)
   \<and> ch CHR 0x60 \<notin> set (clean_markdown x)
   \<and> clean_markdown (str ''snake_case'') = str ''snakecase''"
proof -
  have "clean_markdown (str ''snake_case'') = str ''snakecase''" by code_simp
  then show ?thesis
    using clean_markdown_no_emph [of "ch CHR ''*''" x] clean_markdown_no_emph [of "ch CHR ''_''" x]
      clean_markdown_no_emph [of "ch CHR 0x60" x]
    by (simp add: is_emph_def)
qed

text \<open>
  Claim C8 fails as stated.  Removing the emphasis character between \<open>]\<close> and \<open>(\<close>
  builds a link after the link pass has run: the output for \<open>[a]*(b)\<close> is the link
  \<open>[a](b)\<close>, and a second pass removes it, so \<open>clean_markdown\<close> is not idempotent and
  its output can contain link syntax.
\<close>

theorem C8_counterexample:
  "clean_markdown (str ''[a]*(b)'') = str ''[a](b)''
   \<and> clean_markdown (clean_markdown (str ''[a]*(b)'')) \<noteq> clean_markdown (str ''[a]*(b)'')"
  by code_simp

text \<open>
  Claim C8 as amended.  For every input, the output of \<open>clean_markdown\<close> contains no
  heading marker \<open>#\<close> and no emphasis delimiter (asterisk, underscore, backtick).
\<close>

theorem C8_no_heading_no_emphasis:
  "ch CHR ''#'' \<notin> set (clean_markdown x) \<and> filter is_emph (clean_markdown x) = []"
proof -
  have "filter is_emph (clean_markdown x) = []"
    using clean_markdown_no_emph [of _ x] by (auto simp: filter_empty_conv)
  then show ?thesis using clean_markdown_no_hash by simp
qed

section \<open>Properties of the answer synthesizer\<close>

lemma rfind_last:
  assumes "occurs_at sub s i" and "\<forall>j>i. \<not> occurs_at sub s j"
  shows "rfind s sub = int i"
proof -
  let ?n = "Suc (length s) - length sub"
  have len: "length (take (length sub) (drop i s)) = length sub"
    using assms(1) by (simp add: occurs_at_def)
  then have "length sub \<le> length s - i" by simp
  moreover have "i \<le> length s"
  proof (rule ccontr)
    assume "\<not> i \<le> length s"
    with len have "length sub = 0" by simp
    then have "occurs_at sub s (Suc i)" by (simp add: occurs_at_def)
    with assms(2) show False by blast
  qed
  ultimately have i: "i < ?n" by linarith
  have split: "[0 ..< ?n] = [0 ..< i] @ i # [Suc i ..< ?n]"
    using i by (metis le0 upt_conv_Cons upt_add_eq_append le_add_diff_inverse less_imp_le_nat)
  have "filter (occurs_at sub s) [Suc i ..< ?n] = []"
    using assms(2) by (auto simp: filter_empty_conv)
  then have "filter (occurs_at sub s) [0 ..< ?n] = filter (occurs_at sub s) [0 ..< i] @ [i]"
    using assms(1) by (simp add: split)
  then show ?thesis by (simp add: rfind_def)
qed

lemma rfind_absent:
  assumes "\<forall>j. \<not> occurs_at sub s j"
  shows "rfind s sub = - 1"
proof -
  have "filter (occurs_at sub s) [0 ..< Suc (length s) - length sub] = []"
    using assms by (auto simp: filter_empty_conv)
  then show ?thesis by (simp add: rfind_def)
qed

lemma occurs_at_bound: "occurs_at sub s j \<Longrightarrow> sub \<noteq> [] \<Longrightarrow> j + length sub \<le> length s"
proof -
  assume o: "occurs_at sub s j" and n: "sub \<noteq> []"
  have "length (take (length sub) (drop j s)) = length sub"
    using o by (simp add: occurs_at_def)
  then have "min (length sub) (length s - j) = length sub" by simp
  moreover have "0 < length sub" using n by simp
  ultimately show ?thesis by linarith
qed

text \<open>
  Claim C3.  When the end marker occurs in the generated text and \<open>i\<close> is its last
  occurrence, the extraction returns what follows the marker, stripped of surrounding
  whitespace; when the marker does not occur, it returns the generated text unchanged.
  The extraction is a total function of the text, and whenever the pipeline returns a
  text, \<open>generate_answer\<close> returns the extraction of it: no error arises in this step.
\<close>

theorem C3_extract_answer:
  "(occurs_at INST_END g i \<and> (\<forall>j>i. \<not> occurs_at INST_END g j)
      \<longrightarrow> extract_answer g = strip (drop (i + length INST_END) g))
   \<and> ((\<forall>j. \<not> occurs_at INST_END g j) \<longrightarrow> extract_answer g = g)
   \<and> (relevant_docs \<noteq> [] \<and> doc_context (hd relevant_docs) \<noteq> JStr DUMMY_CHUNK
        \<and> py_join CONTEXT_SEP (map doc_context relevant_docs) = Inr contexts
        \<and> gen calls (build_prompt contexts question) = Inr g
      \<longrightarrow> fst (generate_answer gen calls question relevant_docs) = Inr (extract_answer g))"
proof (intro conjI impI)
  assume a: "occurs_at INST_END g i \<and> (\<forall>j>i. \<not> occurs_at INST_END g j)"
  then have "rfind g INST_END = int i" using rfind_last by blast
  then show "extract_answer g = strip (drop (i + length INST_END) g)"
    by (simp add: extract_answer_def nat_add_distrib)
next
  assume "\<forall>j. \<not> occurs_at INST_END g j"
  then have "rfind g INST_END = - 1" by (rule rfind_absent)
  then show "extract_answer g = g" by (simp add: extract_answer_def)
next
  assume "relevant_docs \<noteq> [] \<and> doc_context (hd relevant_docs) \<noteq> JStr DUMMY_CHUNK
        \<and> py_join CONTEXT_SEP (map doc_context relevant_docs) = Inr contexts
        \<and> gen calls (build_prompt contexts question) = Inr g"
  then show "fst (generate_answer gen calls question relevant_docs) = Inr (extract_answer g)"
    by (simp add: generate_answer_def)
qed

theorem C3_extract_answer_witness:
  "occurs_at INST_END (str ''q[/INST] ok '') 1
   \<and> extract_answer (str ''q[/INST] ok '') = str ''ok''
   \<and> extract_answer (str ''[/INS] no'') = str ''[/INS] no''
   \<and> fst (generate_answer (\<lambda>calls prompt. Inr (str ''x[/INST] yes'')) [] (str ''q'')
        [\<lparr>doc_context = JStr (str ''c''), doc_source = JNull, doc_distance = ()\<rparr>]) = Inr (str ''yes'')"
proof -
  let ?g = "str ''q[/INST] ok ''" and ?h = "str ''[/INS] no''"
  have ne: "INST_END \<noteq> []" by (simp add: INST_END_def str_def)
  have l: "length INST_END = 7" by (simp add: INST_END_def str_def)
  have o: "occurs_at INST_END ?g 1" by code_simp
  have s: "\<forall>j \<in> {2, 3, 4, 5}. \<not> occurs_at INST_END ?g j" by code_simp
  have last: "\<forall>j>1. \<not> occurs_at INST_END ?g j"
  proof (intro allI impI notI)
    fix j :: nat assume j: "1 < j" and oj: "occurs_at INST_END ?g j"
    have "j + 7 \<le> length ?g" using occurs_at_bound [OF oj ne] l by simp
    then have "j \<le> 5" by (simp add: str_def)
    with j have "j \<in> {2, 3, 4, 5}" by auto
    with s oj show False by blast
  qed
  have t: "\<forall>j \<in> {0, 1, 2}. \<not> occurs_at INST_END ?h j" by code_simp
  have none: "\<forall>j. \<not> occurs_at INST_END ?h j"
  proof (intro allI notI)
    fix j :: nat assume oj: "occurs_at INST_END ?h j"
    have "j + 7 \<le> length ?h" using occurs_at_bound [OF oj ne] l by simp
    then have "j \<le> 2" by (simp add: str_def)
    then have "j \<in> {0, 1, 2}" by auto
    with t oj show False by blast
  qed
  have e1: "strip (drop (1 + length INST_END) ?g) = str ''ok''" by code_simp
  have d: "[\<lparr>doc_context = JStr (str ''c''), doc_source = JNull, doc_distance = ()\<rparr>] \<noteq> []
      \<and> doc_context (hd [\<lparr>doc_context = JStr (str ''c''), doc_source = JNull, doc_distance = ()\<rparr>])
          \<noteq> JStr DUMMY_CHUNK
      \<and> py_join CONTEXT_SEP (map doc_context
            [\<lparr>doc_context = JStr (str ''c''), doc_source = JNull, doc_distance = ()\<rparr>]) = Inr (str ''c'')
      \<and> (\<lambda>calls prompt. Inr (str ''x[/INST] yes'')) ([] :: pystr list)
            (build_prompt (str ''c'') (str ''q'')) = (Inr (str ''x[/INST] yes'') :: error + pystr)"
    by (simp add: py_join_def DUMMY_CHUNK_def str_def)
  have e3: "extract_answer (str ''x[/INST] yes'') = str ''yes''" by code_simp
  note c3a = C3_extract_answer [of ?g 1 "[] :: unit retrieval_result list"]
  note c3b = C3_extract_answer [of ?h 0 "[] :: unit retrieval_result list"]
  note c3c = C3_extract_answer [of "str ''x[/INST] yes''" 0
      "[\<lparr>doc_context = JStr (str ''c''), doc_source = JNull, doc_distance = ()\<rparr>]"
      "str ''c''" "\<lambda>calls prompt. Inr (str ''x[/INST] yes'')" "[]" "str ''q''"]
  have r1: "extract_answer ?g = str ''ok''" using c3a o last e1 by simp
  have r2: "extract_answer ?h = ?h" using c3b none by blast
  have r3: "fst (generate_answer (\<lambda>calls prompt. Inr (str ''x[/INST] yes'')) [] (str ''q'')
        [\<lparr>doc_context = JStr (str ''c''), doc_source = JNull, doc_distance = ()\<rparr>]) = Inr (str ''yes'')"
    using c3c d e3 by simp
  show ?thesis using o r1 r2 r3 by blast
qed

text \<open>
  Claim C4.  When the retrieved sequence is empty, or the text of its first entry is the
  sentinel text, \<open>generate_answer\<close> returns the fixed answer and the generation pipeline
  is not invoked: the list of prompts passed to it is unchanged, whatever the pipeline is.
\<close>

theorem C4_guard:
  "relevant_docs = [] \<or> doc_context (hd relevant_docs) = JStr DUMMY_CHUNK \<Longrightarrow>
     generate_answer gen calls question relevant_docs = (Inr NOT_FOUND_ANSWER, calls)"
  by (simp add: generate_answer_def)

theorem C4_guard_witness:
  "generate_answer (\<lambda>calls prompt. Inl RuntimeError) [] (str ''q'') ([] :: unit retrieval_result list)
     = (Inr NOT_FOUND_ANSWER, [])
   \<and> doc_context (hd [\<lparr>doc_context = JStr DUMMY_CHUNK, doc_source = JStr (str ''No Data''), doc_distance = ()\<rparr>])
       = JStr DUMMY_CHUNK
   \<and> generate_answer (\<lambda>calls prompt. Inl RuntimeError) [] (str ''q'')
       [\<lparr>doc_context = JStr DUMMY_CHUNK, doc_source = JStr (str ''No Data''), doc_distance = ()\<rparr>]
     = (Inr NOT_FOUND_ANSWER, [])"
proof -
  have a: "generate_answer (\<lambda>calls prompt. Inl RuntimeError) [] (str ''q'') ([] :: unit retrieval_result list)
     = (Inr NOT_FOUND_ANSWER, [])"
    using C4_guard [of "[] :: unit retrieval_result list" "\<lambda>calls prompt. Inl RuntimeError" "[]" "str ''q''"]
    by simp
  have h: "doc_context (hd [\<lparr>doc_context = JStr DUMMY_CHUNK, doc_source = JStr (str ''No Data''), doc_distance = ()\<rparr>])
       = JStr DUMMY_CHUNK" by simp
  have b: "generate_answer (\<lambda>calls prompt. Inl RuntimeError) [] (str ''q'')
       [\<lparr>doc_context = JStr DUMMY_CHUNK, doc_source = JStr (str ''No Data''), doc_distance = ()\<rparr>]
     = (Inr NOT_FOUND_ANSWER, [])"
    using C4_guard [of "[\<lparr>doc_context = JStr DUMMY_CHUNK, doc_source = JStr (str ''No Data''), doc_distance = ()\<rparr>]"
        "\<lambda>calls prompt. Inl RuntimeError" "[]" "str ''q''"] h
    by blast
  show ?thesis using a h b by blast
qed

section \<open>Properties of the cache store\<close>

text \<open>
  Claim C5.  \<open>check_cache_validity\<close> returns true exactly when both artifacts exist and
  the age of the chunk-metadata artifact is strictly below 24 hours (86400 seconds); it
  returns false when either artifact is missing, and it never raises.
\<close>

theorem C5_check_cache_validity:
  "check_cache_validity w =
     Inr (case files w CACHE_FILE of
            None \<Rightarrow> False
          | Some f \<Rightarrow> files w FAISS_INDEX_FILE \<noteq> None \<and> now w - mtime f < 86400)"
  by (simp add: check_cache_validity_def path_exists_def getmtime_def CACHE_EXPIRY_SECONDS_def
      split: option.splits)

theorem C5_check_cache_validity_witness:
  "check_cache_validity ex_corrupt_world = Inr True
   \<and> check_cache_validity (ex_corrupt_world\<lparr>now := 900 + 86400\<rparr>) = Inr False
   \<and> check_cache_validity (ex_corrupt_world\<lparr>files := (files ex_corrupt_world)(FAISS_INDEX_FILE := None)\<rparr>)
       = Inr False
   \<and> check_cache_validity ex_empty_world = Inr False"
  using C5_check_cache_validity [of ex_corrupt_world]
    C5_check_cache_validity [of "ex_corrupt_world\<lparr>now := 900 + 86400\<rparr>"]
    C5_check_cache_validity
      [of "ex_corrupt_world\<lparr>files := (files ex_corrupt_world)(FAISS_INDEX_FILE := None)\<rparr>"]
    C5_check_cache_validity [of ex_empty_world]
  by (simp add: ex_corrupt_world_def ex_empty_world_def CACHE_FILE_def FAISS_INDEX_FILE_def str_def)

section \<open>Properties of the fetcher and the index builder\<close>

lemma http_get_files:
  "http_get net req w = (r, w1) \<Longrightarrow> files w1 = files w \<and> now w1 = now w"
  by (auto simp: http_get_def)

lemma fetch_post_files:
  "fetch_post net post w = (r, w1) \<Longrightarrow> files w1 = files w \<and> now w1 = now w"
  unfolding fetch_post_def
  by (auto split: sum.splits prod.splits if_splits dest!: http_get_files)

lemma fetch_posts_files:
  "fetch_posts net posts acc w = (r, acc1, w1) \<Longrightarrow> files w1 = files w \<and> now w1 = now w"
proof (induction posts arbitrary: acc w)
  case Nil
  then show ?case by simp
next
  case (Cons post posts)
  obtain x w2 where f: "fetch_post net post w = (x, w2)" by (cases "fetch_post net post w")
  have k: "files w2 = files w \<and> now w2 = now w" using fetch_post_files [OF f] .
  show ?case
  proof (cases x)
    case (Inl e)
    with Cons.prems f k show ?thesis by simp
  next
    case (Inr pairs)
    with Cons.prems f have "fetch_posts net posts (acc @ pairs) w2 = (r, acc1, w1)" by simp
    from Cons.IH [OF this] k show ?thesis by simp
  qed
qed

lemma fetch_listing_files:
  "fetch_listing net page w = (r, w1) \<Longrightarrow> files w1 = files w \<and> now w1 = now w"
  unfolding fetch_listing_def
  by (auto split: sum.splits prod.splits if_splits dest!: http_get_files)

lemma fetch_pages_files:
  "fetch_pages net page acc w = Some y \<Longrightarrow> files (snd y) = files w \<and> now (snd y) = now w"
proof (induction rule: fetch_pages.raw_induct [rotated 1, consumes 1])
  case (1 fetch_pages' net page acc w y)
  obtain l w1 where l: "fetch_listing net page w = (l, w1)" by (cases "fetch_listing net page w")
  have k1: "files w1 = files w \<and> now w1 = now w" using fetch_listing_files [OF l] .
  show ?case
  proof (cases l)
    case None
    with 1(2) l k1 show ?thesis by auto
  next
    case (Some a)
    obtain posts_data ps where a: "a = (posts_data, ps)" by (cases a)
    obtain e acc2 w2 where p: "fetch_posts net ps acc w1 = (e, acc2, w2)"
      by (cases "fetch_posts net ps acc w1")
    have k2: "files w2 = files w1 \<and> now w2 = now w1" using fetch_posts_files [OF p] .
    show ?thesis
    proof (cases e)
      case (Some err)
      with 1(2) l \<open>l = Some a\<close> a p k1 k2 show ?thesis by auto
    next
      case None
      show ?thesis
      proof (cases "dict_get posts_data (str ''next_page'') JNull")
        case (Inl err)
        with 1(2) l \<open>l = Some a\<close> a p None k1 k2 show ?thesis by auto
      next
        case (Inr next_page)
        show ?thesis
        proof (cases "next_page = JNull")
          case True
          with 1(2) l \<open>l = Some a\<close> a p None Inr k1 k2 show ?thesis by auto
        next
          case False
          with 1(2) l \<open>l = Some a\<close> a p None Inr
          have "fetch_pages' net (page + 1) acc2 w2 = Some y" by simp
          from 1(1) [OF this] k1 k2 show ?thesis by simp
        qed
      qed
    qed
  qed
qed

lemma check_cache_validity_total: "\<exists>b. check_cache_validity w = Inr b"
  by (cases "files w CACHE_FILE")
    (auto simp: check_cache_validity_def path_exists_def getmtime_def)

lemma fetch_esa_documents_miss:
  "\<not> cache_hit w \<Longrightarrow> fetch_esa_documents net em w = fetch_and_build net em w"
proof -
  assume m: "\<not> cache_hit w"
  obtain b where b: "check_cache_validity w = Inr b" using check_cache_validity_total by blast
  show ?thesis
  proof (cases b)
    case False
    with b show ?thesis by (simp add: fetch_esa_documents_def)
  next
    case True
    with m b have "isl (load_from_cache w)" by (simp add: cache_hit_def)
    then obtain e where "load_from_cache w = Inl e" by (cases "load_from_cache w") auto
    with b True show ?thesis by (simp add: fetch_esa_documents_def)
  qed
qed

lemma encode_dummy:
  "encode_error em [DUMMY_CHUNK] = None \<Longrightarrow> encode em [JStr DUMMY_CHUNK] = Inr [embed em DUMMY_CHUNK]"
  by (simp add: encode_def)

text \<open>
  Claim C1.  In a run that reaches the fetch loop (no cache hit), whose loop ends with no
  pair, and whose embedding provider returns for the sentinel text, the builder returns
  the one sentinel chunk with metadata \<open>{source: "No Data"}\<close> and an index holding one
  vector, the embedding of the sentinel text; and no file is written: the files after the
  run are the files before it.
\<close>

theorem C1_sentinel_on_empty_fetch:
  assumes "\<not> cache_hit w"
    and "fetch_pages net 1 [] w = Some ([], w1)"
    and "encode_error em [DUMMY_CHUNK] = None"
  shows "fetch_esa_documents net em w =
           Some (Inr ([(JStr DUMMY_CHUNK, JObj [(str ''source'', JStr (str ''No Data''))])],
                      \<lparr>d = dimension em, vectors = [embed em DUMMY_CHUNK]\<rparr>), w1)
         \<and> files w1 = files w"
proof -
  have "fetch_esa_documents net em w = fetch_and_build net em w"
    using assms(1) by (rule fetch_esa_documents_miss)
  also have "\<dots> = Some (build_index em [] w1)"
    using assms(2) by (simp add: fetch_and_build_def)
  also have "build_index em [] w1 =
      (Inr ([(JStr DUMMY_CHUNK, JObj [(str ''source'', JStr (str ''No Data''))])],
            \<lparr>d = dimension em, vectors = [embed em DUMMY_CHUNK]\<rparr>), w1)"
    using encode_dummy [OF assms(3)]
    by (simp add: build_index_def NO_DATA_METADATA_def new_index_def)
  finally have r: "fetch_esa_documents net em w =
           Some (Inr ([(JStr DUMMY_CHUNK, JObj [(str ''source'', JStr (str ''No Data''))])],
                      \<lparr>d = dimension em, vectors = [embed em DUMMY_CHUNK]\<rparr>), w1)" .
  have "files w1 = files w" using fetch_pages_files [OF assms(2)] by simp
  with r show ?thesis by simp
qed

lemma ex_refusing_pages:
  "fetch_pages ex_refusing page acc (w :: nat world) = Some (acc, w\<lparr>requests := requests w @ [ListPosts page]\<rparr>)"
  by (subst fetch_pages.simps) (simp add: fetch_listing_def http_get_def ex_refusing_def)

theorem C1_sentinel_on_empty_fetch_witness:
  "fetch_esa_documents ex_refusing ex_provider ex_empty_world =
     Some (Inr ([(JStr DUMMY_CHUNK, JObj [(str ''source'', JStr (str ''No Data''))])],
                \<lparr>d = 4, vectors = [18]\<rparr>), ex_empty_world\<lparr>requests := [ListPosts 1]\<rparr>)
   \<and> files (ex_empty_world\<lparr>requests := [ListPosts 1]\<rparr>) = files ex_empty_world"
proof -
  have m: "\<not> cache_hit ex_empty_world"
    by (simp add: cache_hit_def check_cache_validity_def path_exists_def ex_empty_world_def)
  have p: "fetch_pages ex_refusing 1 [] ex_empty_world
            = Some ([], ex_empty_world\<lparr>requests := [ListPosts 1]\<rparr>)"
    using ex_refusing_pages [of 1 "[]" ex_empty_world] by (simp add: ex_empty_world_def)
  have e: "encode_error ex_provider [DUMMY_CHUNK] = None" by (simp add: ex_provider_def)
  have v: "dimension ex_provider = 4 \<and> embed ex_provider DUMMY_CHUNK = 18"
    by (simp add: ex_provider_def DUMMY_CHUNK_def)
  show ?thesis using C1_sentinel_on_empty_fetch [OF m p e] v by simp
qed

text \<open>
  Claim C6.  When the cache reports valid and loading it raises, the builder does what
  it does on a cache miss: it runs the fetch and builds from it.  The exception of the
  load does not reach the caller.
\<close>

theorem C6_load_failure_is_cache_miss:
  "check_cache_validity w = Inr True \<Longrightarrow> load_from_cache w = Inl e \<Longrightarrow>
     fetch_esa_documents net em w = fetch_and_build net em w"
  by (simp add: fetch_esa_documents_def)

theorem C6_load_failure_is_cache_miss_witness:
  "check_cache_validity ex_corrupt_world = Inr True
   \<and> load_from_cache ex_corrupt_world = Inl JSONDecodeError
   \<and> fetch_esa_documents ex_refusing ex_provider ex_corrupt_world =
       Some (Inr ([(JStr DUMMY_CHUNK, NO_DATA_METADATA)], \<lparr>d = 4, vectors = [18]\<rparr>),
             ex_corrupt_world\<lparr>requests := [ListPosts 1]\<rparr>)"
proof -
  have c: "check_cache_validity ex_corrupt_world = Inr True"
    by (simp add: check_cache_validity_def path_exists_def getmtime_def ex_corrupt_world_def
        CACHE_EXPIRY_SECONDS_def CACHE_FILE_def FAISS_INDEX_FILE_def str_def)
  have l: "load_from_cache ex_corrupt_world = Inl JSONDecodeError"
    by (simp add: load_from_cache_def json_load_def ex_corrupt_world_def
        CACHE_FILE_def FAISS_INDEX_FILE_def str_def)
  have p: "fetch_pages ex_refusing 1 [] ex_corrupt_world
            = Some ([], ex_corrupt_world\<lparr>requests := [ListPosts 1]\<rparr>)"
    using ex_refusing_pages [of 1 "[]" ex_corrupt_world] by (simp add: ex_corrupt_world_def)
  have b: "fetch_and_build ex_refusing ex_provider ex_corrupt_world =
       Some (Inr ([(JStr DUMMY_CHUNK, NO_DATA_METADATA)], \<lparr>d = 4, vectors = [18]\<rparr>),
             ex_corrupt_world\<lparr>requests := [ListPosts 1]\<rparr>)"
    using p
    by (simp add: fetch_and_build_def build_index_def encode_def new_index_def ex_provider_def
        DUMMY_CHUNK_def)
  show ?thesis using C6_load_failure_is_cache_miss [OF c l, of ex_refusing ex_provider] c l b by simp
qed

section \<open>A failing detail call\<close>

lemma fetch_post_detail_fails:
  assumes "subscript post (str ''number'') = Inr n" and "detail_fails net n w"
  shows "\<exists>e. fetch_post net post w = (Inl e, w\<lparr>requests := requests w @ [PostDetail n]\<rparr>)"
proof (cases "net (requests w) (PostDetail n)")
  case (Inl e)
  with assms(1) show ?thesis by (simp add: fetch_post_def http_get_def)
next
  case (Inr r)
  with assms(2) have "raise_for_status r = Inl HTTPError"
    by (simp add: detail_fails_def raise_for_status_def)
  with assms(1) Inr show ?thesis by (simp add: fetch_post_def http_get_def)
qed

lemma fetch_posts_append:
  "fetch_posts net pre acc w = (None, acc1, w1) \<Longrightarrow>
     fetch_posts net (pre @ xs) acc w = fetch_posts net xs acc1 w1"
proof (induction pre arbitrary: acc w)
  case Nil
  then show ?case by simp
next
  case (Cons post pre)
  obtain x w2 where f: "fetch_post net post w = (x, w2)" by (cases "fetch_post net post w")
  show ?case
  proof (cases x)
    case (Inl e)
    with Cons.prems f show ?thesis by simp
  next
    case (Inr pairs)
    with Cons.prems f have "fetch_posts net pre (acc @ pairs) w2 = (None, acc1, w1)" by simp
    from Cons.IH [OF this] f Inr show ?thesis by simp
  qed
qed

lemma reaches_fetch_pages:
  "reaches net w page acc w0 \<Longrightarrow> fetch_pages net 1 [] w = fetch_pages net page acc w0"
proof (induction rule: reaches.induct)
  case reaches_start
  show ?case by simp
next
  case (reaches_step page all_documents w0 posts_data ps w1 all_documents' w2 next_page)
  have "fetch_pages net page all_documents w0 = fetch_pages net (page + 1) all_documents' w2"
    by (subst fetch_pages.simps) (simp add: reaches_step.hyps)
  with reaches_step.IH show ?case by simp
qed

lemma ex_clean: "clean_markdown (str ''# Hello'') = str ''Hello''"
  by code_simp

lemma ex_clean_hi: "clean_markdown (str ''**Hi**'') = str ''Hi''"
  by code_simp

lemma ex_split: "simple_text_splitter (str ''Hello'') 500 = Inr [str ''Hello'']"
  by code_simp

lemma ex_split_hi: "simple_text_splitter (str ''Hi'') 500 = Inr [str ''Hi'']"
  by code_simp

lemma ex_after_empty: "ex_after [] = ex_empty_world"
  by (simp add: ex_after_def ex_empty_world_def)

lemma ex_http_get: "http_get net req (ex_after reqs) = (net reqs req, ex_after (reqs @ [req]))"
  by (simp add: http_get_def ex_after_def ex_empty_world_def)

lemma ex_post_number: "subscript (ex_post n url) (str ''number'') = Inr (JNum n)"
  by (simp add: ex_post_def)

lemma ex_post_metadata: "post_metadata (ex_post n url) = Inr (ex_metadata url)"
  by (simp add: post_metadata_def ex_post_def ex_metadata_def str_def)

lemma ex_body: "dict_get (JObj [(str ''body_md'', b)]) (str ''body_md'') (JStr []) = Inr b"
  by simp

lemma ex_first_post:
  "fetch_post ex_remote (ex_post 1 url) (ex_after reqs) =
     (Inr [(JStr (str ''Hello''), ex_metadata url)], ex_after (reqs @ [PostDetail (JNum 1)]))"
  by (simp add: fetch_post_def ex_post_number ex_http_get ex_remote_def raise_for_status_def
      ex_body clean_body_def ex_clean ex_split ex_post_metadata)

lemma ex_second_post:
  "fetch_post ex_remote (ex_post 2 url) (ex_after reqs) =
     (Inr [(JStr (str ''Hi''), ex_metadata url)], ex_after (reqs @ [PostDetail (JNum 2)]))"
  by (simp add: fetch_post_def ex_post_number ex_http_get ex_remote_def raise_for_status_def
      ex_body clean_body_def ex_clean_hi ex_split_hi ex_post_metadata)

lemma ex_third_post_fails: "detail_fails ex_remote (JNum 3) (ex_after reqs)"
  by (simp add: detail_fails_def ex_remote_def)

lemma ex_third_post:
  "fetch_post ex_remote (ex_post 3 url) (ex_after reqs) =
     (Inl HTTPError, ex_after (reqs @ [PostDetail (JNum 3)]))"
  by (simp add: fetch_post_def ex_post_number ex_http_get ex_remote_def raise_for_status_def)

lemma ex_listing1:
  "fetch_listing ex_remote 1 (ex_after reqs) =
     (Some (ex_page1, [ex_post 1 (str ''a'')]), ex_after (reqs @ [ListPosts 1]))"
  by (simp add: fetch_listing_def ex_http_get ex_remote_def ex_page1_def)

lemma ex_listing2:
  "fetch_listing ex_remote 2 (ex_after reqs) =
     (Some (ex_page2, [ex_post 2 (str ''b''), ex_post 3 (str ''c''), ex_post 4 (str ''d'')]),
      ex_after (reqs @ [ListPosts 2]))"
  by (simp add: fetch_listing_def ex_http_get ex_remote_def ex_page2_def)

lemma ex_next_page1: "dict_get ex_page1 (str ''next_page'') JNull = Inr (JNum 2)"
  by (simp add: ex_page1_def str_def)

lemma ex_pages2:
  "fetch_pages ex_remote 2 [(JStr (str ''Hello''), ex_metadata (str ''a''))]
       (ex_after [ListPosts 1, PostDetail (JNum 1)]) =
     Some (ex_docs, ex_after ex_requests)"
  by (subst fetch_pages.simps)
    (simp add: ex_listing2 ex_second_post ex_third_post ex_docs_def ex_requests_def)

lemma ex_pages: "fetch_pages ex_remote 1 [] ex_empty_world = Some (ex_docs, ex_after ex_requests)"
proof -
  have "fetch_pages ex_remote 1 [] (ex_after []) =
      fetch_pages ex_remote 2 [(JStr (str ''Hello''), ex_metadata (str ''a''))]
        (ex_after [ListPosts 1, PostDetail (JNum 1)])"
    by (subst fetch_pages.simps) (simp add: ex_listing1 ex_first_post ex_next_page1)
  then show ?thesis by (simp add: ex_pages2 ex_after_empty)
qed

lemma ex_no_cache: "\<not> cache_hit ex_empty_world"
  by (simp add: cache_hit_def check_cache_validity_def path_exists_def ex_empty_world_def)

lemma ex_encode: "encode ex_provider (map fst ex_docs) = Inr [5, 2]"
  by (simp add: encode_def ex_provider_def ex_docs_def str_def)

lemma ex_new_index: "new_index ex_provider [5, 2] = ex_index"
  by (simp add: new_index_def ex_provider_def ex_index_def)

lemma ex_run:
  "fetch_esa_documents ex_remote ex_provider ex_empty_world =
     Some (Inr (ex_docs, ex_index), save_to_cache ex_docs ex_index (ex_after ex_requests))"
proof -
  have n: "ex_docs \<noteq> []" by (simp add: ex_docs_def)
  show ?thesis
    unfolding fetch_esa_documents_miss [OF ex_no_cache] fetch_and_build_def ex_pages
    by (simp add: build_index_def n ex_encode ex_new_index Let_def)
qed

text \<open>
  Claim C7 fails as stated.  The source answers the detail call of post 3 with status
  500.  The batch does not fail: the builder returns the chunks of the posts 1 and 2 with
  a two-vector index, and it writes that partial result to the cache.  Post 4 and the
  next page are never requested.
\<close>

theorem C7_counterexample:
  "detail_fails ex_remote (JNum 3)
     (ex_after [ListPosts 1, PostDetail (JNum 1), ListPosts 2, PostDetail (JNum 2)])
   \<and> fetch_esa_documents ex_remote ex_provider ex_empty_world =
       Some (Inr (ex_docs, ex_index), save_to_cache ex_docs ex_index (ex_after ex_requests))
   \<and> path_exists (save_to_cache ex_docs ex_index (ex_after ex_requests)) CACHE_FILE"
  using ex_third_post_fails ex_run
  by (simp add: path_exists_def save_to_cache_def write_file_def CACHE_FILE_def FAISS_INDEX_FILE_def
      str_def)

text \<open>
  Claim C7 as amended.  When the detail call of a post of a page fails, the fetch loop
  ends there: the post is not skipped, no later post and no later page is requested (the
  failing call is the last request sent), and the loop ends with exactly the pairs
  accumulated from the posts before it.  The builder then goes on with these pairs: in
  the run that reached this page without a cache hit, \<open>fetch_esa_documents\<close> returns what
  step 3 builds from them, which is the pairs with their index, saved to the cache, when
  there are pairs, and the sentinel pair when there are none (whenever the embedding
  provider returns).  The failure of the detail call is not raised to the caller.
\<close>

theorem C7_detail_failure_stops_fetch:
  assumes "fetch_listing net page w0 = (Some (posts_data, pre @ post # rest), w1)"
    and "fetch_posts net pre acc w1 = (None, acc1, w2)"
    and "subscript post (str ''number'') = Inr n"
    and "detail_fails net n w2"
  shows "fetch_pages net page acc w0 = Some (acc1, w2\<lparr>requests := requests w2 @ [PostDetail n]\<rparr>)
    \<and> (reaches net w page acc w0 \<and> \<not> cache_hit w \<longrightarrow>
         fetch_esa_documents net em w =
           Some (build_index em acc1 (w2\<lparr>requests := requests w2 @ [PostDetail n]\<rparr>)))
    \<and> (reaches net w page acc w0 \<and> \<not> cache_hit w \<and> acc1 \<noteq> []
         \<and> encode em (map fst acc1) = Inr vs \<longrightarrow>
         fetch_esa_documents net em w =
           Some (Inr (acc1, new_index em vs),
                 save_to_cache acc1 (new_index em vs)
                   (w2\<lparr>requests := requests w2 @ [PostDetail n]\<rparr>)))
    \<and> (reaches net w page acc w0 \<and> \<not> cache_hit w \<and> acc1 = []
         \<and> encode em [JStr DUMMY_CHUNK] = Inr vs \<longrightarrow>
         fetch_esa_documents net em w =
           Some (Inr ([(JStr DUMMY_CHUNK, NO_DATA_METADATA)], new_index em vs),
                 w2\<lparr>requests := requests w2 @ [PostDetail n]\<rparr>))"
proof -
  let ?w3 = "w2\<lparr>requests := requests w2 @ [PostDetail n]\<rparr>"
  obtain e where e: "fetch_post net post w2 = (Inl e, ?w3)"
    using fetch_post_detail_fails [OF assms(3) assms(4)] by blast
  have "fetch_posts net (pre @ post # rest) acc w1 = fetch_posts net (post # rest) acc1 w2"
    using assms(2) by (rule fetch_posts_append)
  also have "\<dots> = (Some e, acc1, ?w3)"
    using e by simp
  finally have p: "fetch_posts net (pre @ post # rest) acc w1 = (Some e, acc1, ?w3)" .
  have loop: "fetch_pages net page acc w0 = Some (acc1, ?w3)"
    by (subst fetch_pages.simps) (simp add: assms(1) p)
  have run: "fetch_esa_documents net em w = Some (build_index em acc1 ?w3)"
    if "reaches net w page acc w0 \<and> \<not> cache_hit w"
  proof -
    have "fetch_pages net 1 [] w = Some (acc1, ?w3)"
      using that reaches_fetch_pages loop by metis
    then have "fetch_and_build net em w = Some (build_index em acc1 ?w3)"
      by (simp add: fetch_and_build_def)
    then show ?thesis using that fetch_esa_documents_miss by metis
  qed
  have saved: "build_index em acc1 ?w3 =
      (Inr (acc1, new_index em vs), save_to_cache acc1 (new_index em vs) ?w3)"
    if "acc1 \<noteq> [] \<and> encode em (map fst acc1) = Inr vs"
    using that by (simp add: build_index_def Let_def)
  have sentinel: "build_index em acc1 ?w3 =
      (Inr ([(JStr DUMMY_CHUNK, NO_DATA_METADATA)], new_index em vs), ?w3)"
    if "acc1 = [] \<and> encode em [JStr DUMMY_CHUNK] = Inr vs"
    using that by (simp add: build_index_def)
  show ?thesis using loop run saved sentinel by simp
qed

theorem C7_detail_failure_stops_fetch_witness:
  "fetch_pages ex_remote 2 [(JStr (str ''Hello''), ex_metadata (str ''a''))]
       (ex_after [ListPosts 1, PostDetail (JNum 1)]) =
     Some (ex_docs, ex_after ex_requests)
   \<and> fetch_esa_documents ex_remote ex_provider ex_empty_world =
       Some (Inr (ex_docs, ex_index), save_to_cache ex_docs ex_index (ex_after ex_requests))
   \<and> fetch_esa_documents ex_broken ex_provider ex_empty_world =
       Some (Inr ([(JStr DUMMY_CHUNK, NO_DATA_METADATA)], \<lparr>d = 4, vectors = [18]\<rparr>),
             ex_after [ListPosts 1, PostDetail (JNum 2)])"
proof -
  let ?acc = "[(JStr (str ''Hello''), ex_metadata (str ''a''))]"
  let ?w0 = "ex_after [ListPosts 1, PostDetail (JNum 1)]"
  let ?w1 = "ex_after [ListPosts 1, PostDetail (JNum 1), ListPosts 2]"
  let ?w2 = "ex_after [ListPosts 1, PostDetail (JNum 1), ListPosts 2, PostDetail (JNum 2)]"
  have l: "fetch_listing ex_remote 2 ?w0 =
      (Some (ex_page2, [ex_post 2 (str ''b'')] @ ex_post 3 (str ''c'') # [ex_post 4 (str ''d'')]), ?w1)"
    by (simp add: ex_listing2)
  have p: "fetch_posts ex_remote [ex_post 2 (str ''b'')] ?acc ?w1 = (None, ex_docs, ?w2)"
    by (simp add: ex_second_post ex_docs_def)
  have n: "subscript (ex_post 3 (str ''c'')) (str ''number'') = Inr (JNum 3)"
    by (rule ex_post_number)
  have f: "detail_fails ex_remote (JNum 3) ?w2" by (rule ex_third_post_fails)
  have s: "fetch_posts ex_remote [ex_post 1 (str ''a'')] [] (ex_after [ListPosts 1]) = (None, ?acc, ?w0)"
    by (simp add: ex_first_post)
  have l1: "fetch_listing ex_remote 1 ex_empty_world =
      (Some (ex_page1, [ex_post 1 (str ''a'')]), ex_after [ListPosts 1])"
    using ex_listing1 [of "[]"] by (simp add: ex_after_empty)
  have k: "JNum 2 \<noteq> JNull" by simp
  have "reaches ex_remote ex_empty_world (1 + 1) ?acc ?w0"
    using reaches_step [OF reaches_start l1 s ex_next_page1 k] .
  then have r: "reaches ex_remote ex_empty_world 2 ?acc ?w0" by simp
  have w3: "?w2\<lparr>requests := requests ?w2 @ [PostDetail (JNum 3)]\<rparr> = ex_after ex_requests"
    by (simp add: ex_after_def ex_requests_def)
  have d: "ex_docs \<noteq> []" by (simp add: ex_docs_def)
  note c7 = C7_detail_failure_stops_fetch [OF l p n f, where w = ex_empty_world
      and em = ex_provider and vs = "[5, 2]"]
  have a: "fetch_pages ex_remote 2 ?acc ?w0 = Some (ex_docs, ex_after ex_requests)"
    using c7 [THEN conjunct1] by (simp add: w3)
  have b: "fetch_esa_documents ex_remote ex_provider ex_empty_world =
       Some (Inr (ex_docs, ex_index), save_to_cache ex_docs ex_index (ex_after ex_requests))"
    using c7 [THEN conjunct2, THEN conjunct2, THEN conjunct1] r ex_no_cache d ex_encode
    by (simp add: w3 ex_new_index)
  have bl: "fetch_listing ex_broken 1 ex_empty_world =
      (Some (ex_page2, [] @ ex_post 2 (str ''b'') # [ex_post 3 (str ''c''), ex_post 4 (str ''d'')]),
       ex_after [ListPosts 1])"
    using ex_http_get [of ex_broken "ListPosts 1" "[]"]
    by (simp add: fetch_listing_def ex_after_empty ex_broken_def ex_page2_def)
  have bp: "fetch_posts ex_broken [] [] (ex_after [ListPosts 1]) = (None, [], ex_after [ListPosts 1])"
    by simp
  have bn: "subscript (ex_post 2 (str ''b'')) (str ''number'') = Inr (JNum 2)"
    by (rule ex_post_number)
  have bf: "detail_fails ex_broken (JNum 2) (ex_after [ListPosts 1])"
    by (simp add: detail_fails_def ex_broken_def)
  have bw: "(ex_after [ListPosts 1])\<lparr>requests := requests (ex_after [ListPosts 1]) @ [PostDetail (JNum 2)]\<rparr>
      = ex_after [ListPosts 1, PostDetail (JNum 2)]"
    by (simp add: ex_after_def)
  have be: "encode ex_provider [JStr DUMMY_CHUNK] = Inr [18]"
    by (simp add: encode_def ex_provider_def DUMMY_CHUNK_def)
  have bi: "new_index ex_provider [18] = \<lparr>d = 4, vectors = [18]\<rparr>"
    by (simp add: new_index_def ex_provider_def)
  note c7b = C7_detail_failure_stops_fetch [OF bl bp bn bf, where w = ex_empty_world
      and em = ex_provider and vs = "[18]"]
  have c: "fetch_esa_documents ex_broken ex_provider ex_empty_world =
       Some (Inr ([(JStr DUMMY_CHUNK, NO_DATA_METADATA)], \<lparr>d = 4, vectors = [18]\<rparr>),
             ex_after [ListPosts 1, PostDetail (JNum 2)])"
    using c7b [THEN conjunct2, THEN conjunct2, THEN conjunct2] reaches_start [of ex_broken ex_empty_world]
      ex_no_cache be
    by (simp add: bw bi)
  show ?thesis using a b c by simp
qed

section \<open>Positional alignment of chunks and vectors\<close>

lemma as_strs_Inr: "as_strs js = Inr ss \<Longrightarrow> js = map JStr ss"
proof (induction js arbitrary: ss rule: as_strs.induct)
  case 1
  then show ?case by simp
next
  case (2 s js)
  then show ?case by (auto split: sum.splits)
qed simp_all

lemma encode_Inr:
  "encode em js = Inr vs \<Longrightarrow> \<exists>ss. js = map JStr ss \<and> vs = map (embed em) ss"
  by (auto simp: encode_def split: sum.splits option.splits dest: as_strs_Inr)

lemma aligned_encoded:
  assumes "encode em (map fst docs) = Inr vs"
  shows "aligned em docs \<lparr>d = k, vectors = vs\<rparr>"
proof -
  obtain ss where ss: "map fst docs = map JStr ss" and vs: "vs = map (embed em) ss"
    using encode_Inr [OF assms] by blast
  have len: "length ss = length docs" using ss by (metis length_map)
  have "embeds em (fst (docs ! i)) (vs ! i)" if "i < length docs" for i
  proof -
    have "fst (docs ! i) = map fst docs ! i" using that by simp
    also have "\<dots> = JStr (ss ! i)" using that len by (simp add: ss)
    finally show ?thesis using that len by (simp add: embeds_def vs)
  qed
  then show ?thesis using len vs by (simp add: aligned_def)
qed

lemma build_index_aligned:
  assumes "build_index em all_documents w = (Inr (docs, index), w')"
  shows "aligned em docs index"
proof (cases "all_documents = []")
  case True
  with assms obtain vs where e: "encode em [JStr DUMMY_CHUNK] = Inr vs"
    and r: "docs = [(JStr DUMMY_CHUNK, NO_DATA_METADATA)]" "index = new_index em vs"
    by (auto simp: build_index_def split: sum.splits)
  have "encode em (map fst docs) = Inr vs" using e r(1) by simp
  from aligned_encoded [OF this] r(2) show ?thesis by (simp add: new_index_def)
next
  case False
  with assms obtain vs where e: "encode em (map fst all_documents) = Inr vs"
    and r: "docs = all_documents" "index = new_index em vs"
    by (auto simp: build_index_def Let_def split: sum.splits)
  from aligned_encoded [of em docs vs] e r show ?thesis by (simp add: new_index_def)
qed

lemma fetch_and_build_aligned:
  "fetch_and_build net em w = Some (Inr (docs, index), w') \<Longrightarrow> aligned em docs index"
  by (auto simp: fetch_and_build_def split: option.splits dest: build_index_aligned)

lemma cache_file_names: "CACHE_FILE \<noteq> FAISS_INDEX_FILE"
  by (simp add: CACHE_FILE_def FAISS_INDEX_FILE_def str_def)

lemma load_items_saved:
  "load_items (map (\<lambda>(chunk, metadata).
      JObj [(str ''chunk'', chunk), (str ''metadata'', metadata)]) docs) = Inr docs"
proof (induction docs)
  case Nil
  then show ?case by simp
next
  case (Cons doc docs)
  obtain c m where doc: "doc = (c, m)" by (cases doc)
  have k: "str ''metadata'' \<noteq> str ''chunk''" by (simp add: str_def)
  show ?case using Cons.IH k by (simp add: doc)
qed

lemma load_saved: "load_from_cache (save_to_cache docs index w) = Inr (docs, index)"
  using cache_file_names
  by (simp add: load_from_cache_def save_to_cache_def write_file_def json_load_def read_index_def
      load_items_saved)

lemma lookup_result_position:
  assumes "lookup_result (map fst docs) (map snd docs) (distance, pos) = Inr r"
  shows "0 \<le> pos \<and> nat pos < length docs \<and> doc_context r = fst (docs ! nat pos)"
proof -
  from assms obtain chunk where c: "py_index (map fst docs) pos = Inr chunk"
    and r: "doc_context r = chunk"
    by (auto simp: lookup_result_def split: sum.splits)
  from c have p: "0 \<le> pos \<and> pos < int (length docs)" and k: "chunk = map fst docs ! nat pos"
    by (auto simp: py_index_def split: if_splits)
  from p have n: "nat pos < length docs" by linarith
  then have "map fst docs ! nat pos = fst (docs ! nat pos)" by (rule nth_map)
  with p n k r show ?thesis by simp
qed

lemma collect_results_hits:
  "collect_results documents metadatas hits = Inr rs \<Longrightarrow> r \<in> set rs \<Longrightarrow>
     \<exists>hit \<in> set hits. 0 \<le> snd hit \<and> lookup_result documents metadatas hit = Inr r"
proof (induction hits arbitrary: rs)
  case Nil
  then show ?case by simp
next
  case (Cons hit hits)
  show ?case
  proof (cases "0 \<le> snd hit")
    case False
    with Cons.prems have "collect_results documents metadatas hits = Inr rs" by simp
    from Cons.IH [OF this Cons.prems(2)] show ?thesis by auto
  next
    case True
    with Cons.prems(1) obtain r0 rs0 where l: "lookup_result documents metadatas hit = Inr r0"
      and c: "collect_results documents metadatas hits = Inr rs0" and rs: "rs = r0 # rs0"
      by (auto split: sum.splits)
    show ?thesis
    proof (cases "r = r0")
      case True
      with l \<open>0 \<le> snd hit\<close> show ?thesis by auto
    next
      case False
      with Cons.prems(2) rs have "r \<in> set rs0" by simp
      from Cons.IH [OF c this] show ?thesis by auto
    qed
  qed
qed

lemma retrieve_hits:
  assumes "retrieve em search docs index query top_k = Inr rs" and "r \<in> set rs"
  shows "\<exists>qe hit. encode em [JStr query] = Inr qe \<and> hit \<in> set (search index qe top_k)
           \<and> 0 \<le> snd hit \<and> lookup_result (map fst docs) (map snd docs) hit = Inr r"
proof -
  from assms(1) obtain qe where q: "encode em [JStr query] = Inr qe"
    and c: "collect_results (map fst docs) (map snd docs) (search index qe top_k) = Inr rs"
    by (auto simp: retrieve_def Let_def split: sum.splits)
  from collect_results_hits [OF c assms(2)] q show ?thesis by blast
qed

lemma lookup_result_distance:
  "lookup_result documents metadatas hit = Inr r \<Longrightarrow> doc_distance r = fst hit"
  by (auto simp: lookup_result_def split: sum.splits)

lemma lookup_result_source:
  assumes "lookup_result (map fst docs) (map snd docs) (distance, pos) = Inr r"
  shows "subscript (snd (docs ! nat pos)) (str ''source'') = Inr (doc_source r)"
proof -
  from assms obtain metadata src where m: "py_index (map snd docs) pos = Inr metadata"
    and s: "subscript metadata (str ''source'') = Inr src" and r: "doc_source r = src"
    by (auto simp: lookup_result_def split: sum.splits)
  from m have p: "0 \<le> pos \<and> pos < int (length docs)" and k: "metadata = map snd docs ! nat pos"
    by (auto simp: py_index_def split: if_splits)
  from p have n: "nat pos < length docs" by linarith
  then have "map snd docs ! nat pos = snd (docs ! nat pos)" by (rule nth_map)
  with k s r show ?thesis by simp
qed

lemma build_index_saved:
  assumes "build_index em all_documents w = (Inr (docs, index), w')"
  shows "load_from_cache w' = Inr (docs, index)
         \<or> (docs = [(JStr DUMMY_CHUNK, NO_DATA_METADATA)] \<and> w' = w)"
proof (cases "all_documents = []")
  case True
  with assms show ?thesis by (auto simp: build_index_def split: sum.splits)
next
  case False
  with assms have "w' = save_to_cache docs index w"
    by (auto simp: build_index_def Let_def split: sum.splits)
  then show ?thesis by (simp add: load_saved)
qed

lemma fetch_and_build_saved:
  assumes "fetch_and_build net em w = Some (Inr (docs, index), w')"
  shows "load_from_cache w' = Inr (docs, index)
         \<or> (docs = [(JStr DUMMY_CHUNK, NO_DATA_METADATA)] \<and> files w' = files w)"
proof -
  from assms obtain all_documents w1 where f: "fetch_pages net 1 [] w = Some (all_documents, w1)"
    and b: "build_index em all_documents w1 = (Inr (docs, index), w')"
    by (auto simp: fetch_and_build_def split: option.splits)
  have "files w1 = files w" using fetch_pages_files [OF f] by simp
  with build_index_saved [OF b] show ?thesis by auto
qed

lemma fetch_esa_documents_hit:
  "cache_hit w \<Longrightarrow> fetch_esa_documents net em w = Some (load_from_cache w, w)"
  by (cases "load_from_cache w") (auto simp: cache_hit_def fetch_esa_documents_def)

lemma ex_stale_valid: "check_cache_validity ex_stale_world = Inr True"
  by (simp add: check_cache_validity_def path_exists_def getmtime_def ex_stale_world_def
      CACHE_EXPIRY_SECONDS_def CACHE_FILE_def FAISS_INDEX_FILE_def str_def)

lemma ex_stale_load:
  "load_from_cache ex_stale_world = Inr ([(JStr (str ''Hello''), JObj [])], \<lparr>d = 4, vectors = []\<rparr>)"
  by (simp add: load_from_cache_def json_load_def read_index_def ex_stale_world_def
      CACHE_FILE_def FAISS_INDEX_FILE_def str_def)

text \<open>
  Claim C9 fails as stated.  The builder returns what a valid cache holds without
  comparing the two artifacts: with a fresh chunk file of one chunk and an index file
  holding no vector, the pair it returns has one chunk and no vector.
\<close>

theorem C9_counterexample:
  "fetch_esa_documents ex_refusing ex_provider ex_stale_world =
     Some (Inr ([(JStr (str ''Hello''), JObj [])], \<lparr>d = 4, vectors = []\<rparr>), ex_stale_world)
   \<and> length (vectors \<lparr>d = 4, vectors = [] :: nat list\<rparr>) \<noteq> length [(JStr (str ''Hello''), JObj [])]"
  by (simp add: fetch_esa_documents_def ex_stale_valid ex_stale_load)

text \<open>
  Claim C9 as amended.  Every pair that the builder builds in the run, the sentinel pair
  and the pair built from the fetched chunks, is aligned: as many vectors as chunks, and
  the vector at each position is the embedding of the chunk at that position.  The pair
  built from fetched chunks is also the pair that the run leaves in the cache (the
  sentinel pair is not saved).  On a cache hit the builder returns the pair as the two
  artifacts hold it, and a pair written by \<open>save_to_cache\<close> is loaded back unchanged.  For
  an aligned pair, every result of \<open>retrieve\<close> comes from a position that the vector
  search returned: it carries the distance of that hit, the chunk at that position, whose
  embedding is the vector at that position, and the source of the metadata at that
  position.
\<close>

theorem C9_built_pairs_aligned:
  "(\<not> cache_hit w \<and> fetch_esa_documents net em w = Some (Inr (docs, index), w')
      \<longrightarrow> aligned em docs index
          \<and> (load_from_cache w' = Inr (docs, index)
               \<or> (docs = [(JStr DUMMY_CHUNK, NO_DATA_METADATA)] \<and> files w' = files w)))
   \<and> (cache_hit w \<longrightarrow> fetch_esa_documents net em w = Some (load_from_cache w, w))
   \<and> load_from_cache (save_to_cache docs index w) = Inr (docs, index)
   \<and> (aligned em docs index \<and> retrieve em search docs index query top_k = Inr rs \<and> r \<in> set rs
      \<longrightarrow> (\<exists>qe hit. encode em [JStr query] = Inr qe \<and> hit \<in> set (search index qe top_k)
            \<and> 0 \<le> snd hit \<and> nat (snd hit) < length (vectors index)
            \<and> doc_distance r = fst hit
            \<and> doc_context r = fst (docs ! nat (snd hit))
            \<and> subscript (snd (docs ! nat (snd hit))) (str ''source'') = Inr (doc_source r)
            \<and> embeds em (doc_context r) (vectors index ! nat (snd hit))))"
proof -
  have c1: "\<not> cache_hit w \<and> fetch_esa_documents net em w = Some (Inr (docs, index), w')
      \<longrightarrow> aligned em docs index
          \<and> (load_from_cache w' = Inr (docs, index)
               \<or> (docs = [(JStr DUMMY_CHUNK, NO_DATA_METADATA)] \<and> files w' = files w))"
  proof
    assume "\<not> cache_hit w \<and> fetch_esa_documents net em w = Some (Inr (docs, index), w')"
    then have b: "fetch_and_build net em w = Some (Inr (docs, index), w')"
      using fetch_esa_documents_miss by metis
    show "aligned em docs index
          \<and> (load_from_cache w' = Inr (docs, index)
               \<or> (docs = [(JStr DUMMY_CHUNK, NO_DATA_METADATA)] \<and> files w' = files w))"
      using fetch_and_build_aligned [OF b] fetch_and_build_saved [OF b] by simp
  qed
  have c2: "cache_hit w \<longrightarrow> fetch_esa_documents net em w = Some (load_from_cache w, w)"
    using fetch_esa_documents_hit by blast
  have c3: "load_from_cache (save_to_cache docs index w) = Inr (docs, index)"
    by (rule load_saved)
  have c4: "aligned em docs index \<and> retrieve em search docs index query top_k = Inr rs \<and> r \<in> set rs
      \<longrightarrow> (\<exists>qe hit. encode em [JStr query] = Inr qe \<and> hit \<in> set (search index qe top_k)
            \<and> 0 \<le> snd hit \<and> nat (snd hit) < length (vectors index)
            \<and> doc_distance r = fst hit
            \<and> doc_context r = fst (docs ! nat (snd hit))
            \<and> subscript (snd (docs ! nat (snd hit))) (str ''source'') = Inr (doc_source r)
            \<and> embeds em (doc_context r) (vectors index ! nat (snd hit)))"
  proof
    assume a: "aligned em docs index \<and> retrieve em search docs index query top_k = Inr rs \<and> r \<in> set rs"
    then obtain qe hit where q: "encode em [JStr query] = Inr qe"
      and h: "hit \<in> set (search index qe top_k)" "0 \<le> snd hit"
      and l: "lookup_result (map fst docs) (map snd docs) hit = Inr r"
      using retrieve_hits by blast
    have l': "lookup_result (map fst docs) (map snd docs) (fst hit, snd hit) = Inr r" using l by simp
    then have p: "0 \<le> snd hit \<and> nat (snd hit) < length docs
        \<and> doc_context r = fst (docs ! nat (snd hit))"
      by (rule lookup_result_position)
    have s: "subscript (snd (docs ! nat (snd hit))) (str ''source'') = Inr (doc_source r)"
      using l' by (rule lookup_result_source)
    have dd: "doc_distance r = fst hit" using l by (rule lookup_result_distance)
    have "nat (snd hit) < length (vectors index)
        \<and> embeds em (doc_context r) (vectors index ! nat (snd hit))"
      using a p by (simp add: aligned_def)
    with q h p s dd show "\<exists>qe hit. encode em [JStr query] = Inr qe \<and> hit \<in> set (search index qe top_k)
            \<and> 0 \<le> snd hit \<and> nat (snd hit) < length (vectors index)
            \<and> doc_distance r = fst hit
            \<and> doc_context r = fst (docs ! nat (snd hit))
            \<and> subscript (snd (docs ! nat (snd hit))) (str ''source'') = Inr (doc_source r)
            \<and> embeds em (doc_context r) (vectors index ! nat (snd hit))"
      by blast
  qed
  from c1 c2 c3 c4 show ?thesis by blast
qed

theorem C9_built_pairs_aligned_witness:
  "length (vectors ex_index) = length ex_docs
   \<and> embeds ex_provider (JStr (str ''Hello'')) 5
   \<and> embeds ex_provider (JStr (str ''Hi'')) 2
   \<and> load_from_cache (save_to_cache ex_docs ex_index (ex_after ex_requests)) = Inr (ex_docs, ex_index)
   \<and> fetch_esa_documents ex_refusing ex_provider ex_stale_world
       = Some (load_from_cache ex_stale_world, ex_stale_world)
   \<and> retrieve ex_provider (\<lambda>index qe top_k. [((), 1), ((), - 1), ((), 0)])
        ex_docs ex_index (str ''q'') 3
       = Inr [\<lparr>doc_context = JStr (str ''Hi''), doc_source = JStr (str ''b''), doc_distance = ()\<rparr>,
              \<lparr>doc_context = JStr (str ''Hello''), doc_source = JStr (str ''a''), doc_distance = ()\<rparr>]
   \<and> subscript (snd (ex_docs ! 1)) (str ''source'') = Inr (JStr (str ''b''))"
proof -
  let ?rb = "\<lparr>doc_context = JStr (str ''Hi''), doc_source = JStr (str ''b''), doc_distance = ()\<rparr>"
  let ?ra = "\<lparr>doc_context = JStr (str ''Hello''), doc_source = JStr (str ''a''), doc_distance = ()\<rparr>"
  let ?search = "\<lambda>(index :: nat faiss_index) (qe :: nat list) (top_k :: nat).
      [((), 1 :: int), ((), - 1), ((), 0)]"
  let ?w1 = "save_to_cache ex_docs ex_index (ex_after ex_requests)"
  have h: "cache_hit ex_stale_world"
    by (simp add: cache_hit_def ex_stale_valid ex_stale_load)
  have l: "retrieve ex_provider ?search ex_docs ex_index (str ''q'') 3 = Inr [?rb, ?ra]"
    by (simp add: retrieve_def encode_def ex_provider_def lookup_result_def py_index_def
        ex_docs_def ex_metadata_def str_def)
  note built = C9_built_pairs_aligned [where w = ex_empty_world and net = ex_remote
        and em = ex_provider and docs = ex_docs and index = ex_index and w' = "?w1"
        and search = "?search" and query = "str ''q''" and top_k = 3 and rs = "[?rb, ?ra]"]
  have as: "aligned ex_provider ex_docs ex_index
      \<and> (load_from_cache ?w1 = Inr (ex_docs, ex_index)
           \<or> (ex_docs = [(JStr DUMMY_CHUNK, NO_DATA_METADATA)] \<and> files ?w1 = files ex_empty_world))"
    using built [where r = "?rb", THEN conjunct1] ex_no_cache ex_run by simp
  then have a: "aligned ex_provider ex_docs ex_index" by simp
  have "ex_docs \<noteq> [(JStr DUMMY_CHUNK, NO_DATA_METADATA)]" by (simp add: ex_docs_def)
  with as have s: "load_from_cache ?w1 = Inr (ex_docs, ex_index)" by simp
  have b: "fetch_esa_documents ex_refusing ex_provider ex_stale_world
       = Some (load_from_cache ex_stale_world, ex_stale_world)"
    using C9_built_pairs_aligned [where w = ex_stale_world and net = ex_refusing
        and em = ex_provider and docs = ex_docs and index = ex_index and w' = ex_stale_world
        and search = "?search" and query = "str ''q''" and top_k = 3 and rs = "[?rb, ?ra]"
        and r = "?rb", THEN conjunct2, THEN conjunct1] h
    by simp
  have "\<exists>qe hit. encode ex_provider [JStr (str ''q'')] = Inr qe \<and> hit \<in> set (?search ex_index qe 3)
            \<and> 0 \<le> snd hit \<and> nat (snd hit) < length (vectors ex_index)
            \<and> doc_distance ?rb = fst hit
            \<and> doc_context ?rb = fst (ex_docs ! nat (snd hit))
            \<and> subscript (snd (ex_docs ! nat (snd hit))) (str ''source'') = Inr (doc_source ?rb)
            \<and> embeds ex_provider (doc_context ?rb) (vectors ex_index ! nat (snd hit))"
    using built [where r = "?rb", THEN conjunct2, THEN conjunct2, THEN conjunct2] a l by simp
  then obtain qe :: "nat list" and hit :: "unit \<times> int"
    where hit: "hit \<in> set (?search ex_index qe 3)" and pos: "0 \<le> snd hit"
      and c: "doc_context ?rb = fst (ex_docs ! nat (snd hit))"
      and m: "subscript (snd (ex_docs ! nat (snd hit))) (str ''source'') = Inr (doc_source ?rb)"
      and e: "embeds ex_provider (doc_context ?rb) (vectors ex_index ! nat (snd hit))"
    by blast
  from hit have "snd hit = 1 \<or> snd hit = - 1 \<or> snd hit = 0" by auto
  with pos have "snd hit = 1 \<or> snd hit = 0" by linarith
  moreover have "snd hit \<noteq> 0"
  proof
    assume "snd hit = 0"
    with c have "JStr (str ''Hi'') = fst (ex_docs ! 0)" by simp
    then show False by (simp add: ex_docs_def str_def)
  qed
  ultimately have one: "nat (snd hit) = 1" by auto
  have e2: "embeds ex_provider (JStr (str ''Hi'')) 2"
    using e unfolding one by (simp add: ex_index_def)
  have m2: "subscript (snd (ex_docs ! 1)) (str ''source'') = Inr (JStr (str ''b''))"
    using m unfolding one by simp
  have a0: "length (vectors ex_index) = length ex_docs \<and> embeds ex_provider (JStr (str ''Hello'')) 5"
    using a by (auto simp: aligned_def ex_docs_def ex_index_def)
  show ?thesis using a0 e2 s b l m2 by simp
qed

end
